theory Spec2Isabelle
  imports Main "HOL-Library.Multiset"
begin

section \<open>The environment of the driver\<close>

text \<open>
  \<^verbatim>\<open>core/drivers/unix_socket.cc\<close> is a port driver that exchanges packets with one client
  over a UNIX domain socket. Everything it does goes through calls that live outside the
  file: system calls on file descriptors, the packet allocator, the accessors of a packet
  head, the start of a thread. The model makes these calls explicit:
  \<^item> every outside call is appended to a \<open>trace\<close>, in the order the code makes it;
  \<^item> the results of \<open>accept4\<close>, \<open>recv\<close> and \<open>sendmsg\<close>, which depend on the peer, are read
    from scripts held by the environment, one entry per call; a call whose script is used
    up has no answer (\<open>NoAnswer\<close>), as a blocked call has none;
  \<^item> the kernel's descriptor table says which socket object each open descriptor number
    refers to;
  \<^item> the allocator is a pool of free packet buffers.
\<close>

datatype errno = EINTR | EAGAIN | EWOULDBLOCK | EBADF | EINVAL | EPIPE | ECONNRESET | EADDRINUSE | EMFILE

text \<open>The socket objects of the kernel: the endpoint made by \<open>socket()\<close>, and one
  connection per accepted peer.\<close>

datatype sock = Endpoint | Peer nat

text \<open>A \<^verbatim>\<open>bess::Packet *\<close> is the address of a packet buffer.\<close>

type_synonym pkt = nat

record iovec =
  iov_base :: nat
  iov_len :: nat

text \<open>What the accessors \<^verbatim>\<open>nb_segs()\<close>, \<^verbatim>\<open>head_data()\<close>, \<^verbatim>\<open>head_len()\<close> and \<^verbatim>\<open>next()\<close>
  read from a packet head. The packet class is declared outside this file; the transmit
  path receives the packet memory as a parameter and only reads it.\<close>

record mbuf =
  nb_segs :: nat
  head_data :: nat
  head_len :: nat
  next_pkt :: "pkt option"

datatype event =
    E_accept4 int
  | E_PLOG
  | E_dup2 int int
  | E_close int
  | E_thread_AcceptThreadMain
  | E_socket
  | E_unlink string
  | E_bind int string nat
  | E_listen int int
  | E_Alloc "pkt option"
  | E_recv int pkt
  | E_append pkt int
  | E_Free pkt
  | E_Free_bulk "pkt list"
  | E_sendmsg int "iovec list"

record world =
  fdtab :: "int \<Rightarrow> sock option"
  pool :: "pkt list"
  accept_results :: "(int \<times> errno \<times> nat) list"
  recv_results :: "(int \<times> errno) list"
  sendmsg_results :: "(int \<times> errno) list"
  socket_result :: "int \<times> errno"
  bind_result :: "int \<times> errno"
  listen_result :: "int \<times> errno"
  trace :: "event list"

text \<open>Why a call has no result: the environment's script gives no answer, or the code
  dereferences a null packet pointer.\<close>

datatype fault = NoAnswer | NullDeref

text \<open>The outside calls a function has made: what it appended to the trace.\<close>

definition events_since :: "world \<Rightarrow> world \<Rightarrow> event list" where
  "events_since w w' = drop (length (trace w)) (trace w')"

subsection \<open>System calls\<close>

text \<open>A system call returns \<open>(ret, errno)\<close>; \<open>errno\<close> means something only when
  \<open>ret < 0\<close>. \<open>accept4\<close> that succeeds returns the new descriptor, which then refers to
  the new connection.\<close>

definition sys_accept4 :: "int \<Rightarrow> world \<Rightarrow> fault + ((int \<times> errno) \<times> world)" where
  "sys_accept4 fd w =
     (case accept_results w of
        [] \<Rightarrow> Inl NoAnswer
      | (ret, err, peer) # rs \<Rightarrow>
          Inr ((ret, err),
               w\<lparr>fdtab := (if 0 \<le> ret then (fdtab w)(ret \<mapsto> Peer peer) else fdtab w),
                  accept_results := rs,
                  trace := trace w @ [E_accept4 fd]\<rparr>))"

text \<open>\<open>dup2(oldfd, newfd)\<close> makes \<open>newfd\<close> refer to the object of \<open>oldfd\<close>, silently
  dropping what \<open>newfd\<close> referred to; it fails with \<open>EBADF\<close>, changing nothing, when
  \<open>oldfd\<close> is not open or \<open>newfd\<close> is not a descriptor number.\<close>

definition sys_dup2 :: "int \<Rightarrow> int \<Rightarrow> world \<Rightarrow> world" where
  "sys_dup2 oldfd newfd w =
     w\<lparr>fdtab := (if fdtab w oldfd = None \<or> newfd < 0 then fdtab w
                  else (fdtab w)(newfd := fdtab w oldfd)),
        trace := trace w @ [E_dup2 oldfd newfd]\<rparr>"

definition sys_close :: "int \<Rightarrow> world \<Rightarrow> world" where
  "sys_close fd w = w\<lparr>fdtab := (fdtab w)(fd := None), trace := trace w @ [E_close fd]\<rparr>"

definition sys_socket :: "world \<Rightarrow> (int \<times> errno) \<times> world" where
  "sys_socket w =
     (socket_result w,
      w\<lparr>fdtab := (if 0 \<le> fst (socket_result w)
                   then (fdtab w)(fst (socket_result w) \<mapsto> Endpoint) else fdtab w),
         trace := trace w @ [E_socket]\<rparr>)"

definition sys_unlink :: "string \<Rightarrow> world \<Rightarrow> world" where
  "sys_unlink path w = w\<lparr>trace := trace w @ [E_unlink path]\<rparr>"

definition sys_bind :: "int \<Rightarrow> string \<Rightarrow> nat \<Rightarrow> world \<Rightarrow> (int \<times> errno) \<times> world" where
  "sys_bind fd sun_path addrlen w =
     (bind_result w, w\<lparr>trace := trace w @ [E_bind fd sun_path addrlen]\<rparr>)"

definition sys_listen :: "int \<Rightarrow> int \<Rightarrow> world \<Rightarrow> (int \<times> errno) \<times> world" where
  "sys_listen fd backlog w =
     (listen_result w, w\<lparr>trace := trace w @ [E_listen fd backlog]\<rparr>)"

definition sys_recv :: "int \<Rightarrow> pkt \<Rightarrow> world \<Rightarrow> fault + ((int \<times> errno) \<times> world)" where
  "sys_recv fd buf w =
     (case recv_results w of
        [] \<Rightarrow> Inl NoAnswer
      | r # rs \<Rightarrow> Inr (r, w\<lparr>recv_results := rs, trace := trace w @ [E_recv fd buf]\<rparr>))"

definition sys_sendmsg :: "int \<Rightarrow> iovec list \<Rightarrow> world \<Rightarrow> fault + ((int \<times> errno) \<times> world)" where
  "sys_sendmsg fd iov w =
     (case sendmsg_results w of
        [] \<Rightarrow> Inl NoAnswer
      | r # rs \<Rightarrow> Inr (r, w\<lparr>sendmsg_results := rs, trace := trace w @ [E_sendmsg fd iov]\<rparr>))"

subsection \<open>The allocator, logging, threads\<close>

text \<open>\<^verbatim>\<open>bess::Packet::Alloc()\<close> takes a buffer from the pool, or returns null when the pool
  is empty; \<^verbatim>\<open>Free\<close> returns buffers to the pool.\<close>

definition Alloc :: "world \<Rightarrow> pkt option \<times> world" where
  "Alloc w =
     (case pool w of
        [] \<Rightarrow> (None, w\<lparr>trace := trace w @ [E_Alloc None]\<rparr>)
      | b # bs \<Rightarrow> (Some b, w\<lparr>pool := bs, trace := trace w @ [E_Alloc (Some b)]\<rparr>))"

definition Free :: "pkt \<Rightarrow> world \<Rightarrow> world" where
  "Free b w = w\<lparr>pool := b # pool w, trace := trace w @ [E_Free b]\<rparr>"

definition Free_bulk :: "pkt list \<Rightarrow> world \<Rightarrow> world" where
  "Free_bulk bs w = w\<lparr>pool := bs @ pool w, trace := trace w @ [E_Free_bulk bs]\<rparr>"

definition append :: "pkt \<Rightarrow> int \<Rightarrow> world \<Rightarrow> world" where
  "append b len w = w\<lparr>trace := trace w @ [E_append b len]\<rparr>"

definition PLOG :: "world \<Rightarrow> world" where
  "PLOG w = w\<lparr>trace := trace w @ [E_PLOG]\<rparr>"

text \<open>\<^verbatim>\<open>std::thread accept_thread(AcceptThreadMain, this); accept_thread.detach();\<close>\<close>

definition thread_AcceptThreadMain :: "world \<Rightarrow> world" where
  "thread_AcceptThreadMain w = w\<lparr>trace := trace w @ [E_thread_AcceptThreadMain]\<rparr>"

section \<open>The port\<close>

text \<open>The fields of \<^verbatim>\<open>UnixSocketPort\<close> that the file reads and writes. The class is declared
  in \<^verbatim>\<open>unix_socket.h\<close>: the constant \<^verbatim>\<open>kNotConnectedFd\<close> of that header is a parameter
  of every function that uses it. The fields are written here without the trailing
  underscore of the C++ names (\<open>client_fd\<close> is \<^verbatim>\<open>client_fd_\<close>). \<^verbatim>\<open>recv_skip_cnt_\<close> only ever
  holds 0 to 256.\<close>

record port =
  listen_fd :: int
  client_fd :: int
  old_client_fd :: int
  recv_skip_cnt :: int
  addr :: string

definition RECV_SKIP_TICKS :: int where
  "RECV_SKIP_TICKS = 256"

definition MAX_TX_FRAGS :: nat where
  "MAX_TX_FRAGS = 8"

subsection \<open>AcceptNewClient, CloseConnection\<close>

text \<open>The loop \<^verbatim>\<open>for (;;)\<close> around \<open>accept4\<close>: it ends at the first non-negative result
  and logs every failure other than \<open>EINTR\<close>.\<close>

function accept_loop :: "int \<Rightarrow> world \<Rightarrow> fault + (int \<times> world)" where
  "accept_loop lfd w =
     (case sys_accept4 lfd w of
        Inl f \<Rightarrow> Inl f
      | Inr ((ret, err), w1) \<Rightarrow>
          if 0 \<le> ret then Inr (ret, w1)
          else accept_loop lfd (if err \<noteq> EINTR then PLOG w1 else w1))"
  by pat_completeness auto
termination
  by (relation "measure (\<lambda>(lfd, w). length (accept_results w))")
     (auto simp: sys_accept4_def PLOG_def split: list.splits)

declare accept_loop.simps [simp del]

definition AcceptNewClient :: "int \<Rightarrow> port \<Rightarrow> world \<Rightarrow> fault + (port \<times> world)" where
  "AcceptNewClient kNotConnectedFd p w =
     (case accept_loop (listen_fd p) w of
        Inl f \<Rightarrow> Inl f
      | Inr (ret, w1) \<Rightarrow>
          (let p1 = p\<lparr>recv_skip_cnt := 0\<rparr> in
           if old_client_fd p1 \<noteq> kNotConnectedFd
           then Inr (p1, sys_close ret (sys_dup2 ret (client_fd p1) w1))
           else Inr (p1\<lparr>client_fd := ret\<rparr>, w1)))"

definition AcceptThreadMain :: "int \<Rightarrow> port \<Rightarrow> world \<Rightarrow> fault + (port \<times> world)" where
  "AcceptThreadMain kNotConnectedFd p w = AcceptNewClient kNotConnectedFd p w"

definition CloseConnection :: "int \<Rightarrow> port \<Rightarrow> world \<Rightarrow> port \<times> world" where
  "CloseConnection kNotConnectedFd p w =
     (p\<lparr>old_client_fd := client_fd p, client_fd := kNotConnectedFd\<rparr>,
      thread_AcceptThreadMain w)"

subsection \<open>Init, DeInit\<close>

datatype CommandResponse = CommandSuccess | CommandFailure errno string

text \<open>\<^verbatim>\<open>snprintf(buf, n, "%s", s)\<close> leaves in \<open>buf\<close> the string \<open>s\<close> up to its first NUL,
  cut to \<open>n - 1\<close> characters. \<^verbatim>\<open>sizeof(addr_.sun_path)\<close> is 108 and
  \<^verbatim>\<open>sizeof(addr_.sun_family)\<close> is 2 on Linux; \<^verbatim>\<open>P_tmpdir\<close> is \<^verbatim>\<open>/tmp\<close>.\<close>

definition c_str :: "string \<Rightarrow> string" where
  "c_str s = takeWhile (\<lambda>c. c \<noteq> CHR 0x00) s"

definition snprintf :: "nat \<Rightarrow> string \<Rightarrow> string" where
  "snprintf n s = take (n - 1) (c_str s)"

definition sizeof_sun_path :: nat where
  "sizeof_sun_path = 108"

definition sizeof_sun_family :: nat where
  "sizeof_sun_family = 2"

definition P_tmpdir :: string where
  "P_tmpdir = ''/tmp''"

text \<open>The tail of \<open>Init\<close>, from \<open>bind\<close> on.\<close>

definition Init_bind_listen :: "nat \<Rightarrow> port \<Rightarrow> world \<Rightarrow> CommandResponse \<times> port \<times> world" where
  "Init_bind_listen addrlen p w =
     (let ((ret, err), w1) = sys_bind (listen_fd p) (addr p) addrlen w in
      if ret < 0 then (CommandFailure err (''bind('' @ c_str (addr p) @ '') failed''), p, w1)
      else
        (let ((ret, err), w2) = sys_listen (listen_fd p) 1 w1 in
         if ret < 0 then (CommandFailure err ''listen() failed'', p, w2)
         else (CommandSuccess, p, thread_AcceptThreadMain w2)))"

text \<open>\<open>Init\<close> takes the path of the argument, the port's name and the two entries of
  \<^verbatim>\<open>num_queues\<close>.\<close>

definition Init ::
  "int \<Rightarrow> string \<Rightarrow> string \<Rightarrow> int \<Rightarrow> int \<Rightarrow> port \<Rightarrow> world \<Rightarrow> CommandResponse \<times> port \<times> world" where
  "Init kNotConnectedFd path name num_txq num_rxq p w =
     (let p1 = p\<lparr>client_fd := kNotConnectedFd, old_client_fd := kNotConnectedFd\<rparr> in
      if 1 < num_txq \<or> 1 < num_rxq
      then (CommandFailure EINVAL ''Cannot have more than 1 queue per RX/TX'', p1, w)
      else
        (let ((ret, err), w1) = sys_socket w;
             p2 = p1\<lparr>listen_fd := ret\<rparr> in
         if listen_fd p2 < 0 then (CommandFailure err ''socket(AF_UNIX) failed'', p2, w1)
         else
           (let sun_path =
                  (if length path \<noteq> 0 then snprintf sizeof_sun_path path
                   else snprintf sizeof_sun_path (P_tmpdir @ ''/bess_unix_'' @ name));
                addrlen = sizeof_sun_family + length sun_path
            in case sun_path of
                 [] \<Rightarrow> Init_bind_listen addrlen (p2\<lparr>addr := sun_path\<rparr>) (sys_unlink sun_path w1)
               | c # cs \<Rightarrow>
                   if c \<noteq> CHR ''@''
                   then Init_bind_listen addrlen (p2\<lparr>addr := sun_path\<rparr>) (sys_unlink sun_path w1)
                   else Init_bind_listen addrlen (p2\<lparr>addr := CHR 0x00 # cs\<rparr>) w1)))"


subsection \<open>RecvPackets\<close>

text \<open>The loop \<^verbatim>\<open>while (received < cnt)\<close>. The list \<open>pkts\<close> is what the loop has stored
  into the output array so far, so \<^verbatim>\<open>received\<close> is its length. \<^verbatim>\<open>DCHECK_EQ(qid, 0)\<close> is a
  debug assertion on the queue index and is left out.\<close>

function recv_loop ::
  "int \<Rightarrow> int \<Rightarrow> pkt list \<Rightarrow> port \<Rightarrow> world \<Rightarrow> fault + (pkt list \<times> port \<times> world)" where
  "recv_loop kNotConnectedFd cnt pkts p w =
     (if int (length pkts) < cnt then
        (case Alloc w of
           (None, w1) \<Rightarrow> Inr (pkts, p, w1)
         | (Some pkt, w1) \<Rightarrow>
             (case sys_recv (client_fd p) pkt w1 of
                Inl f \<Rightarrow> Inl f
              | Inr ((ret, err), w2) \<Rightarrow>
                  if 0 < ret
                  then recv_loop kNotConnectedFd cnt (pkts @ [pkt]) p (append pkt ret w2)
                  else
                    (let w3 = Free pkt w2 in
                     if ret < 0 \<and> (err = EAGAIN \<or> err = EWOULDBLOCK) then Inr (pkts, p, w3)
                     else if ret < 0 \<and> err = EINTR
                     then recv_loop kNotConnectedFd cnt pkts p w3
                     else (case CloseConnection kNotConnectedFd p w3 of
                             (p', w4) \<Rightarrow> Inr (pkts, p', w4)))))
      else Inr (pkts, p, w))"
  by pat_completeness auto
termination
  by (relation "measure (\<lambda>(nc, cnt, pkts, p, w). length (recv_results w))")
     (auto simp: Alloc_def sys_recv_def append_def Free_def split: list.splits)

declare recv_loop.simps [simp del]

text \<open>\<open>RecvPackets\<close> returns the packets stored into the output array; the \<^verbatim>\<open>int\<close> it
  returns in C++ is their number.\<close>

definition RecvPackets ::
  "int \<Rightarrow> int \<Rightarrow> port \<Rightarrow> world \<Rightarrow> fault + (pkt list \<times> port \<times> world)" where
  "RecvPackets kNotConnectedFd cnt p w =
     (if client_fd p = kNotConnectedFd then Inr ([], p, w)
      else if recv_skip_cnt p \<noteq> 0
      then Inr ([], p\<lparr>recv_skip_cnt := recv_skip_cnt p - 1\<rparr>, w)
      else
        (case recv_loop kNotConnectedFd cnt [] p w of
           Inl f \<Rightarrow> Inl f
         | Inr (pkts, p1, w1) \<Rightarrow>
             Inr (pkts,
                  if length pkts = 0 then p1\<lparr>recv_skip_cnt := RECV_SKIP_TICKS\<rparr> else p1,
                  w1)))"

text \<open>The caller polling \<open>n\<close> times in a row, each time with room for \<open>cnt\<close> packets;
  the result collects what the calls returned.\<close>

fun poll :: "nat \<Rightarrow> int \<Rightarrow> int \<Rightarrow> port \<Rightarrow> world \<Rightarrow> fault + (pkt list \<times> port \<times> world)" where
  "poll 0 kNotConnectedFd cnt p w = Inr ([], p, w)"
| "poll (Suc n) kNotConnectedFd cnt p w =
     (case RecvPackets kNotConnectedFd cnt p w of
        Inl f \<Rightarrow> Inl f
      | Inr (pkts, p1, w1) \<Rightarrow>
          (case poll n kNotConnectedFd cnt p1 w1 of
             Inl f \<Rightarrow> Inl f
           | Inr (pkts2, p2, w2) \<Rightarrow> Inr (pkts @ pkts2, p2, w2)))"

subsection \<open>SendPackets\<close>

text \<open>The inner loop \<^verbatim>\<open>for (int j = 0; j < nb_segs; j++)\<close>: it writes entry \<open>j\<close> of the
  array \<open>iov\<close> from the current segment and moves to the next one. Reading a segment
  through a null pointer has no defined result.\<close>

function fill_iov ::
  "(pkt \<Rightarrow> mbuf) \<Rightarrow> nat \<Rightarrow> nat \<Rightarrow> pkt option \<Rightarrow> iovec list \<Rightarrow> fault + iovec list" where
  "fill_iov mem nb j pkt iov =
     (if j < nb then
        (case pkt of
           None \<Rightarrow> Inl NullDeref
         | Some a \<Rightarrow>
             fill_iov mem nb (Suc j) (next_pkt (mem a))
               (iov[j := \<lparr>iov_base = head_data (mem a), iov_len = head_len (mem a)\<rparr>]))
      else Inr iov)"
  by pat_completeness auto
termination
  by (relation "measure (\<lambda>(mem, nb, j, pkt, iov). nb - j)") auto

declare fill_iov.simps [simp del]

text \<open>The array \<^verbatim>\<open>struct iovec iov[nb_segs]\<close> before the loop has written it.\<close>

definition iov_array :: "nat \<Rightarrow> iovec list" where
  "iov_array n = replicate n \<lparr>iov_base = 0, iov_len = 0\<rparr>"

text \<open>The outer loop, over the packets of the batch in order; \<open>cnt\<close> is the length of
  the list.\<close>

fun send_loop ::
  "(pkt \<Rightarrow> mbuf) \<Rightarrow> int \<Rightarrow> pkt list \<Rightarrow> int \<Rightarrow> world \<Rightarrow> fault + (int \<times> world)" where
  "send_loop mem fd [] sent w = Inr (sent, w)"
| "send_loop mem fd (pkt # rest) sent w =
     (case fill_iov mem (nb_segs (mem pkt)) 0 (Some pkt) (iov_array (nb_segs (mem pkt))) of
        Inl f \<Rightarrow> Inl f
      | Inr iov \<Rightarrow>
          (case sys_sendmsg fd iov w of
             Inl f \<Rightarrow> Inl f
           | Inr ((ret, err), w1) \<Rightarrow>
               if ret < 0 then Inr (sent, w1)
               else send_loop mem fd rest (sent + 1) w1))"

definition SendPackets ::
  "(pkt \<Rightarrow> mbuf) \<Rightarrow> pkt list \<Rightarrow> port \<Rightarrow> world \<Rightarrow> fault + (int \<times> port \<times> world)" where
  "SendPackets mem pkts p w =
     (case send_loop mem (client_fd p) pkts 0 w of
        Inl f \<Rightarrow> Inl f
      | Inr (sent, w1) \<Rightarrow>
          Inr (sent, p, if sent \<noteq> 0 then Free_bulk (take (nat sent) pkts) w1 else w1))"

section \<open>A run of the port\<close>

text \<open>The states of one run with \<open>kNotConnectedFd = -1\<close>: a port object before \<open>Init\<close>,
  listening after \<open>Init\<close>, connected after the first client is accepted under
  descriptor 4, and after the receive path has seen that client close. The lemmas of the
  last section show that the code goes from each to the next.\<close>

definition world_boot :: world where
  "world_boot =
     \<lparr>fdtab = Map.empty, pool = [100, 101],
      accept_results = [(4, EINTR, 1), (- 1, EMFILE, 0), (5, EINTR, 2)],
      recv_results = [(0, EINTR)], sendmsg_results = [],
      socket_result = (3, EINTR), bind_result = (0, EINTR), listen_result = (0, EINTR),
      trace = []\<rparr>"

definition port_boot :: port where
  "port_boot =
     \<lparr>listen_fd = 0, client_fd = 0, old_client_fd = 0, recv_skip_cnt = 0, addr = []\<rparr>"

definition port_listening :: port where
  "port_listening =
     \<lparr>listen_fd = 3, client_fd = - 1, old_client_fd = - 1, recv_skip_cnt = 0,
      addr = ''/tmp/test.sock''\<rparr>"

definition world_listening :: world where
  "world_listening =
     world_boot\<lparr>fdtab := [3 \<mapsto> Endpoint],
                 trace := [E_socket, E_unlink ''/tmp/test.sock'',
                           E_bind 3 ''/tmp/test.sock'' 16, E_listen 3 1,
                           E_thread_AcceptThreadMain]\<rparr>"

definition port_connected :: port where
  "port_connected = port_listening\<lparr>client_fd := 4\<rparr>"

definition world_connected :: world where
  "world_connected =
     world_listening\<lparr>fdtab := [3 \<mapsto> Endpoint, 4 \<mapsto> Peer 1],
                      accept_results := [(- 1, EMFILE, 0), (5, EINTR, 2)],
                      trace := trace world_listening @ [E_accept4 3]\<rparr>"

definition port_retired :: port where
  "port_retired = port_listening\<lparr>client_fd := - 1, old_client_fd := 4, recv_skip_cnt := 256\<rparr>"

definition world_retired :: world where
  "world_retired =
     world_connected\<lparr>recv_results := [],
                      trace := trace world_connected @
                        [E_Alloc (Some 100), E_recv 4 100, E_Free 100,
                         E_thread_AcceptThreadMain]\<rparr>"

text \<open>What the failed attempts of the accept loop leave in the trace.\<close>

definition failed_accepts :: "int \<Rightarrow> (int \<times> errno \<times> nat) list \<Rightarrow> event list" where
  "failed_accepts lfd fails =
     concat (map (\<lambda>(r, e, k). E_accept4 lfd # (if e \<noteq> EINTR then [E_PLOG] else [])) fails)"

section \<open>Notions used in the statements\<close>

subsection \<open>The segment chain of a packet\<close>

text \<open>The first \<open>n\<close> segments reached from a packet pointer through \<^verbatim>\<open>next()\<close>, in chain
  order, when there are that many. A packet's segment chain is \<open>chain\<close> for its own
  segment count.\<close>

fun chain :: "(pkt \<Rightarrow> mbuf) \<Rightarrow> nat \<Rightarrow> pkt option \<Rightarrow> pkt list option" where
  "chain mem 0 pkt = Some []"
| "chain mem (Suc n) None = None"
| "chain mem (Suc n) (Some a) =
     (case chain mem n (next_pkt (mem a)) of
        None \<Rightarrow> None
      | Some segs \<Rightarrow> Some (a # segs))"

definition seg_iovec :: "(pkt \<Rightarrow> mbuf) \<Rightarrow> pkt \<Rightarrow> iovec" where
  "seg_iovec mem a = \<lparr>iov_base = head_data (mem a), iov_len = head_len (mem a)\<rparr>"

text \<open>The scatter list the specification asks for: one entry per segment of the chain,
  holding that segment's data pointer and length, in chain order.\<close>

definition scatter_list :: "(pkt \<Rightarrow> mbuf) \<Rightarrow> pkt \<Rightarrow> iovec list" where
  "scatter_list mem a =
     (case chain mem (nb_segs (mem a)) (Some a) of
        None \<Rightarrow> []
      | Some segs \<Rightarrow> map (seg_iovec mem) segs)"

definition well_chained :: "(pkt \<Rightarrow> mbuf) \<Rightarrow> pkt \<Rightarrow> bool" where
  "well_chained mem a = (chain mem (nb_segs (mem a)) (Some a) \<noteq> None)"

text \<open>A packet memory for the examples: packet 200 is a chain of twelve segments, 200 to
  211; every other address is a packet of one segment.\<close>

definition mem_demo :: "pkt \<Rightarrow> mbuf" where
  "mem_demo a =
     \<lparr>nb_segs = (if a = 200 then 12 else 1),
      head_data = 4096 * a + 128,
      head_len = 64,
      next_pkt = (if 200 \<le> a \<and> a < 211 then Some (a + 1) else None)\<rparr>"

text \<open>The connected port of the run, about to transmit: the peer takes two messages and then
  fails the third send; the peer fails the first send; the peer takes every message.\<close>

definition world_send_2_of_5 :: world where
  "world_send_2_of_5 =
     world_connected\<lparr>sendmsg_results := [(64, EINTR), (64, EINTR), (- 1, EPIPE), (64, EINTR)]\<rparr>"


definition world_send_all :: world where
  "world_send_all =
     world_connected\<lparr>sendmsg_results := [(768, EINTR), (64, EINTR), (64, EINTR)]\<rparr>"

text \<open>What a script of send results lets a batch of \<open>n\<close> packets do: the sends that
  succeed are the leading results that are not negative, and the sends made are these and
  the failed one after them, when the batch has a packet left for it.\<close>

definition sends_ok :: "nat \<Rightarrow> (int \<times> errno) list \<Rightarrow> nat" where
  "sends_ok n script = length (takeWhile (\<lambda>x. \<not> fst x < 0) (take n script))"

definition sends_made :: "nat \<Rightarrow> (int \<times> errno) list \<Rightarrow> nat" where
  "sends_made n script = min (Suc (sends_ok n script)) n"

subsection \<open>Buffers in the trace\<close>

text \<open>The buffers that the calls of a trace took from the allocator, and the buffers they
  gave back one at a time.\<close>

fun allocated :: "event list \<Rightarrow> pkt list" where
  "allocated [] = []"
| "allocated (E_Alloc (Some b) # es) = b # allocated es"
| "allocated (e # es) = allocated es"

fun released :: "event list \<Rightarrow> pkt list" where
  "released [] = []"
| "released (E_Free b # es) = b # released es"
| "released (e # es) = released es"

text \<open>The connected port of the run, about to receive: the peer has sent two datagrams,
  one read is interrupted, and the connection is then reset.\<close>

definition world_recv_mixed :: world where
  "world_recv_mixed =
     world_connected\<lparr>pool := [100, 101, 102],
        recv_results := [(2, EINTR), (- 1, EINTR), (3, EINTR), (- 1, ECONNRESET)]\<rparr>"

text \<open>The outside calls of the turns of the receive loop that read a datagram: buffer \<open>b\<close>
  is allocated, read into, and its length set to the result of the read.\<close>

definition received_events :: "int \<Rightarrow> pkt list \<Rightarrow> (int \<times> errno) list \<Rightarrow> event list" where
  "received_events fd bufs oks =
     concat (map (\<lambda>(b, x). [E_Alloc (Some b), E_recv fd b, E_append b (fst x)]) (zip bufs oks))"

text \<open>The connected port of the run, about to receive: two datagrams, then the connection
  is reset, with more in the script that is never read.\<close>

definition world_recv_reset :: world where
  "world_recv_reset =
     world_connected\<lparr>pool := [100, 101, 102],
        recv_results := [(2, EINTR), (3, EINTR), (- 1, ECONNRESET), (5, EINTR)]\<rparr>"

text \<open>The connected port of the run with an idle peer (every read would block), and with
  data pending while the allocator has no buffer left.\<close>

definition world_idle :: world where
  "world_idle = world_connected\<lparr>recv_results := [(- 1, EAGAIN), (- 1, EAGAIN)]\<rparr>"

definition world_idle_read :: world where
  "world_idle_read =
     world_idle\<lparr>recv_results := [(- 1, EAGAIN)],
        trace := trace world_idle @ [E_Alloc (Some 100), E_recv 4 100, E_Free 100]\<rparr>"

definition world_starved :: world where
  "world_starved = world_connected\<lparr>pool := [], recv_results := [(2, EINTR)]\<rparr>"

section \<open>Properties\<close>

subsection \<open>The run\<close>

lemma run_Init:
  "Init (- 1) ''/tmp/test.sock'' ''u0'' 1 1 port_boot world_boot =
     (CommandSuccess, port_listening, world_listening)"
  by (simp add: Init_def Init_bind_listen_def Let_def sys_socket_def sys_unlink_def sys_bind_def
        sys_listen_def thread_AcceptThreadMain_def snprintf_def c_str_def sizeof_sun_path_def
        sizeof_sun_family_def port_boot_def world_boot_def port_listening_def
        world_listening_def)

lemma run_first_accept:
  "AcceptThreadMain (- 1) port_listening world_listening = Inr (port_connected, world_connected)"
  by (simp add: AcceptThreadMain_def AcceptNewClient_def accept_loop.simps sys_accept4_def
        port_listening_def world_listening_def world_boot_def port_connected_def
        world_connected_def)

lemma run_closure:
  "RecvPackets (- 1) 1 port_connected world_connected = Inr ([], port_retired, world_retired)"
  by (simp add: RecvPackets_def recv_loop.simps Alloc_def sys_recv_def Free_def
        CloseConnection_def thread_AcceptThreadMain_def RECV_SKIP_TICKS_def
        port_connected_def port_listening_def port_retired_def world_connected_def
        world_listening_def world_boot_def world_retired_def)

subsection \<open>The trace\<close>

lemma events_since_same: "events_since w w = []"
  by (simp add: events_since_def)

lemma events_since_append: "trace w' = trace w @ es \<Longrightarrow> events_since w w' = es"
  by (simp add: events_since_def)

subsection \<open>Init\<close>

text \<open>C6: when more than one receive queue or more than one transmit queue is requested,
  \<open>Init\<close> fails with \<open>EINVAL\<close> and leaves the environment as it was: it has made no
  outside call (no \<open>socket\<close>, \<open>bind\<close> or \<open>listen\<close>) and the descriptor table is unchanged,
  so no socket exists that did not exist before.\<close>

theorem Init_rejects_multi_queue:
  assumes "1 < num_txq \<or> 1 < num_rxq"
  shows "Init nc path name num_txq num_rxq p w =
           (CommandFailure EINVAL ''Cannot have more than 1 queue per RX/TX'',
            p\<lparr>client_fd := nc, old_client_fd := nc\<rparr>, w) \<and>
         events_since w (snd (snd (Init nc path name num_txq num_rxq p w))) = [] \<and>
         fdtab (snd (snd (Init nc path name num_txq num_rxq p w))) = fdtab w"
  using assms by (simp add: Init_def events_since_same)

theorem Init_rejects_multi_queue_witness:
  "((1::int) < 1 \<or> (1::int) < 2) \<and>
   Init (- 1) ''/tmp/test.sock'' ''u0'' 1 2 port_boot world_boot =
     (CommandFailure EINVAL ''Cannot have more than 1 queue per RX/TX'',
      port_boot\<lparr>client_fd := - 1, old_client_fd := - 1\<rparr>, world_boot) \<and>
   events_since world_boot
     (snd (snd (Init (- 1) ''/tmp/test.sock'' ''u0'' 1 2 port_boot world_boot))) = [] \<and>
   fdtab (snd (snd (Init (- 1) ''/tmp/test.sock'' ''u0'' 1 2 port_boot world_boot))) =
     fdtab world_boot"
  using Init_rejects_multi_queue [of 1 2 "- 1" "''/tmp/test.sock''" "''u0''" port_boot world_boot]
  by (simp add: events_since_same)

text \<open>With at most one queue each way, the first outside call of \<open>Init\<close> is
  \<open>socket\<close>: the queue check is what stands before it.\<close>

lemma Init_bind_listen_trace:
  "\<exists>es. trace (snd (snd (Init_bind_listen n p w))) = trace w @ es"
  by (simp add: Init_bind_listen_def sys_bind_def sys_listen_def thread_AcceptThreadMain_def
        Let_def split: prod.splits)

lemma Init_single_queue_shape:
  assumes "num_txq \<le> 1" and "num_rxq \<le> 1"
  shows "snd (snd (Init nc path name num_txq num_rxq p w)) = snd (sys_socket w) \<or>
         (\<exists>n p2 w2. Init nc path name num_txq num_rxq p w = Init_bind_listen n p2 w2 \<and>
            (w2 = snd (sys_socket w) \<or> (\<exists>u. w2 = sys_unlink u (snd (sys_socket w)))))"
  using assms
  by (auto simp: Init_def Let_def split: prod.splits list.splits)

lemma Init_single_queue_calls_socket:
  assumes "num_txq \<le> 1" and "num_rxq \<le> 1"
  shows "\<exists>es. events_since w (snd (snd (Init nc path name num_txq num_rxq p w))) = E_socket # es"
proof -
  let ?w' = "snd (snd (Init nc path name num_txq num_rxq p w))"
  have sock: "trace (snd (sys_socket w)) = trace w @ [E_socket]"
    by (simp add: sys_socket_def)
  have "\<exists>es. trace ?w' = trace w @ E_socket # es"
    using Init_single_queue_shape [OF assms, of nc path name p w]
  proof (elim disjE exE conjE)
    assume "?w' = snd (sys_socket w)"
    then show ?thesis using sock by simp
  next
    fix n p2 w2
    assume eq: "Init nc path name num_txq num_rxq p w = Init_bind_listen n p2 w2"
       and w2: "w2 = snd (sys_socket w)"
    obtain es where "trace (snd (snd (Init_bind_listen n p2 w2))) = trace w2 @ es"
      using Init_bind_listen_trace by blast
    then show ?thesis using eq w2 sock by simp
  next
    fix n p2 w2 u
    assume eq: "Init nc path name num_txq num_rxq p w = Init_bind_listen n p2 w2"
       and w2: "w2 = sys_unlink u (snd (sys_socket w))"
    obtain es where "trace (snd (snd (Init_bind_listen n p2 w2))) = trace w2 @ es"
      using Init_bind_listen_trace by blast
    then show ?thesis using eq w2 sock by (simp add: sys_unlink_def)
  qed
  then show ?thesis
    by (auto simp: events_since_def)
qed

subsection \<open>AcceptNewClient\<close>

text \<open>The accept loop, when the script holds failed attempts and then a success: it returns
  the accepted descriptor, which now refers to the new connection.\<close>

lemma accept_loop_fails:
  assumes "accept_results w = fails @ (ret, err, peer) # rs"
      and "\<forall>x \<in> set fails. fst x < 0"
      and "0 \<le> ret"
  shows "accept_loop lfd w =
           Inr (ret, w\<lparr>fdtab := (fdtab w)(ret \<mapsto> Peer peer), accept_results := rs,
                        trace := trace w @ failed_accepts lfd fails @ [E_accept4 lfd]\<rparr>)"
  using assms
proof (induction fails arbitrary: w)
  case Nil
  then show ?case
    by (subst accept_loop.simps) (simp add: sys_accept4_def failed_accepts_def)
next
  case (Cons f fails)
  obtain r e k where f: "f = (r, e, k)" by (cases f)
  with Cons.prems have neg: "r < 0" by simp
  define w1 where "w1 = w\<lparr>accept_results := fails @ (ret, err, peer) # rs,
                           trace := trace w @ [E_accept4 lfd]\<rparr>"
  define w2 where "w2 = (if e \<noteq> EINTR then PLOG w1 else w1)"
  have step: "accept_loop lfd w = accept_loop lfd w2"
    using Cons.prems(1) neg f
    by (subst accept_loop.simps) (simp add: sys_accept4_def w1_def w2_def)
  have script: "accept_results w2 = fails @ (ret, err, peer) # rs"
    by (simp add: PLOG_def w1_def w2_def)
  have negs: "\<forall>x \<in> set fails. fst x < 0"
    using Cons.prems(2) by simp
  have w2_fdtab: "fdtab w2 = fdtab w"
    by (simp add: PLOG_def w1_def w2_def)
  have w2_trace: "trace w2 = trace w @ failed_accepts lfd [f]"
    by (simp add: PLOG_def w1_def w2_def f failed_accepts_def)
  have w2_upd: "w2\<lparr>fdtab := g, accept_results := rs, trace := t\<rparr> =
                w\<lparr>fdtab := g, accept_results := rs, trace := t\<rparr>" for g t
    by (simp add: PLOG_def w1_def w2_def)
  have "failed_accepts lfd (f # fails) = failed_accepts lfd [f] @ failed_accepts lfd fails"
    by (simp add: failed_accepts_def)
  then show ?case
    unfolding step Cons.IH [OF script negs Cons.prems(3)] w2_fdtab w2_trace w2_upd
    by (simp add: fun_upd_def)
qed

text \<open>The first connection: with no retiring descriptor, the accepted descriptor becomes the
  client slot and the port is connected.\<close>

lemma AcceptNewClient_first_connection:
  assumes "old_client_fd p = nc"
      and "accept_results w = fails @ (ret, err, peer) # rs"
      and "\<forall>x \<in> set fails. fst x < 0"
      and "0 \<le> ret"
  shows "\<exists>w'. AcceptNewClient nc p w = Inr (p\<lparr>recv_skip_cnt := 0, client_fd := ret\<rparr>, w') \<and>
              fdtab w' = (fdtab w)(ret \<mapsto> Peer peer)"
  using assms(1)
  by (simp add: AcceptNewClient_def accept_loop_fails [OF assms(2,3,4)])

text \<open>C1 (the code departs from it): a reconnect is an acceptance that finds a retiring
  descriptor in \<open>old_client_fd\<close>; the client slot then holds \<open>kNotConnectedFd\<close>, where
  \<open>CloseConnection\<close> has put it. \<open>AcceptNewClient\<close> calls \<open>dup2\<close> on the accepted descriptor
  and on the client slot, that is on \<open>kNotConnectedFd\<close> and not on the retired descriptor
  number, then closes the accepted descriptor, and never writes the client slot: the port
  stays not connected, the accepted descriptor is closed, and with a negative
  \<open>kNotConnectedFd\<close> the descriptor table is as it was, the new connection is gone.\<close>

theorem AcceptNewClient_reconnect_stays_unconnected:
  assumes "old_client_fd p \<noteq> nc"
      and "client_fd p = nc"
      and "accept_results w = fails @ (ret, err, peer) # rs"
      and "\<forall>x \<in> set fails. fst x < 0"
      and "0 \<le> ret"
  shows "\<exists>w'. AcceptNewClient nc p w = Inr (p\<lparr>recv_skip_cnt := 0\<rparr>, w') \<and>
              client_fd (p\<lparr>recv_skip_cnt := 0\<rparr>) = nc \<and>
              events_since w w' =
                failed_accepts (listen_fd p) fails @
                [E_accept4 (listen_fd p), E_dup2 ret nc, E_close ret] \<and>
              fdtab w' ret = None \<and>
              (nc < 0 \<longrightarrow> fdtab w' = (fdtab w)(ret := None))"
  using assms(1,2)
  by (simp add: AcceptNewClient_def accept_loop_fails [OF assms(3,4,5)] sys_close_def
        sys_dup2_def events_since_def)

theorem AcceptNewClient_reconnect_stays_unconnected_witness:
  "old_client_fd port_retired \<noteq> - 1 \<and>
   client_fd port_retired = - 1 \<and>
   accept_results world_retired = [(- 1, EMFILE, 0)] @ (5, EINTR, 2) # [] \<and>
   fst (- 1 :: int, EMFILE, 0 :: nat) < 0 \<and>
   (0 :: int) \<le> 5 \<and>
   AcceptNewClient (- 1) port_retired world_retired =
     Inr (port_retired\<lparr>recv_skip_cnt := 0\<rparr>,
          world_retired\<lparr>accept_results := [],
            trace := trace world_retired @
              [E_accept4 3, E_PLOG, E_accept4 3, E_dup2 5 (- 1), E_close 5]\<rparr>) \<and>
   client_fd (port_retired\<lparr>recv_skip_cnt := 0\<rparr>) = - 1 \<and>
   fdtab world_retired = [3 \<mapsto> Endpoint, 4 \<mapsto> Peer 1]"
proof -
  have script: "accept_results world_retired = [(- 1, EMFILE, 0)] @ (5, EINTR, 2) # []"
    by (simp add: world_retired_def world_connected_def world_listening_def world_boot_def)
  have fails: "\<forall>x \<in> set [(- 1 :: int, EMFILE, 0 :: nat)]. fst x < 0"
    by simp
  have old: "old_client_fd port_retired \<noteq> - 1" and cl: "client_fd port_retired = - 1"
    by (simp_all add: port_retired_def port_listening_def)
  obtain w' where
    run: "AcceptNewClient (- 1) port_retired world_retired =
            Inr (port_retired\<lparr>recv_skip_cnt := 0\<rparr>, w')"
    using AcceptNewClient_reconnect_stays_unconnected [OF old cl script fails] by auto
  have "AcceptNewClient (- 1) port_retired world_retired =
     Inr (port_retired\<lparr>recv_skip_cnt := 0\<rparr>,
          world_retired\<lparr>accept_results := [],
            trace := trace world_retired @
              [E_accept4 3, E_PLOG, E_accept4 3, E_dup2 5 (- 1), E_close 5]\<rparr>)"
    by (simp add: AcceptNewClient_def accept_loop.simps sys_accept4_def PLOG_def sys_dup2_def
          sys_close_def port_retired_def port_listening_def world_retired_def
          world_connected_def world_listening_def world_boot_def fun_eq_iff)
  with run show ?thesis
    using script old cl
    by (simp add: world_retired_def world_connected_def world_listening_def world_boot_def)
qed

subsection \<open>DeInit\<close>



subsection \<open>SendPackets\<close>

lemma fill_iov_chain:
  assumes "chain mem n pkt = Some segs"
      and "length iov = j + n"
  shows "fill_iov mem (j + n) j pkt iov = Inr (take j iov @ map (seg_iovec mem) segs)"
  using assms
proof (induction n arbitrary: j pkt iov segs)
  case 0
  then show ?case
    by (subst fill_iov.simps) simp
next
  case (Suc n)
  from Suc.prems(1) obtain a rest where
    pkt: "pkt = Some a" and rest: "chain mem n (next_pkt (mem a)) = Some rest"
    and segs: "segs = a # rest"
    by (cases pkt) (auto split: option.splits)
  have len: "length (iov[j := seg_iovec mem a]) = Suc j + n"
    using Suc.prems(2) by simp
  have "fill_iov mem (j + Suc n) j pkt iov =
          fill_iov mem (Suc j + n) (Suc j) (next_pkt (mem a)) (iov[j := seg_iovec mem a])"
    by (subst fill_iov.simps) (simp add: pkt seg_iovec_def)
  also have "\<dots> = Inr (take (Suc j) (iov[j := seg_iovec mem a]) @ map (seg_iovec mem) rest)"
    by (rule Suc.IH [OF rest len])
  also have "take (Suc j) (iov[j := seg_iovec mem a]) = take j iov @ [seg_iovec mem a]"
    using Suc.prems(2) by (simp add: take_Suc_conv_app_nth)
  finally show ?case
    by (simp add: segs)
qed

lemma fill_iov_scatter_list:
  assumes "well_chained mem a"
  shows "fill_iov mem (nb_segs (mem a)) 0 (Some a) (iov_array (nb_segs (mem a))) =
           Inr (scatter_list mem a)"
proof -
  from assms obtain segs where c: "chain mem (nb_segs (mem a)) (Some a) = Some segs"
    by (auto simp: well_chained_def)
  have "length (iov_array (nb_segs (mem a))) = 0 + nb_segs (mem a)"
    by (simp add: iov_array_def)
  from fill_iov_chain [OF c this] show ?thesis
    by (simp add: scatter_list_def c)
qed

lemma chain_length: "chain mem n pkt = Some segs \<Longrightarrow> length segs = n"
  by (induction mem n pkt arbitrary: segs rule: chain.induct) (auto split: option.splits)


text \<open>One turn of the outer loop on a packet whose chain is there: the scatter list is
  built and sent as one message.\<close>

lemma send_loop_Cons:
  assumes "well_chained mem a"
  shows "send_loop mem fd (a # rest) sent w =
           (case sendmsg_results w of
              [] \<Rightarrow> Inl NoAnswer
            | r # rs \<Rightarrow>
                if fst r < 0
                then Inr (sent, w\<lparr>sendmsg_results := rs,
                                   trace := trace w @ [E_sendmsg fd (scatter_list mem a)]\<rparr>)
                else send_loop mem fd rest (sent + 1)
                       (w\<lparr>sendmsg_results := rs,
                          trace := trace w @ [E_sendmsg fd (scatter_list mem a)]\<rparr>))"
  by (simp add: fill_iov_scatter_list [OF assms] sys_sendmsg_def split: list.splits prod.splits)



text \<open>On packets whose chains are there, the calls of the outer loop are one \<open>sendmsg\<close> per
  packet, in the order of the batch, each with the scatter list of its packet; the loop
  ends after the batch or at the first failed send.\<close>

lemma send_loop_scatter:
  assumes "\<forall>a \<in> set pkts. well_chained mem a"
      and "send_loop mem fd pkts sent w = Inr (sent', w')"
  shows "\<exists>m. m \<le> length pkts \<and>
           trace w' = trace w @ map (\<lambda>a. E_sendmsg fd (scatter_list mem a)) (take m pkts) \<and>
           (sent' = sent + int m \<or> sent' + 1 = sent + int m)"
  using assms
proof (induction pkts arbitrary: sent w)
  case Nil
  then show ?case by simp
next
  case (Cons a rest)
  have wa: "well_chained mem a" and wrest: "\<forall>a \<in> set rest. well_chained mem a"
    using Cons.prems(1) by simp_all
  from Cons.prems(2) obtain r rs where script: "sendmsg_results w = r # rs"
    by (auto simp: send_loop_Cons [OF wa] simp del: send_loop.simps split: list.splits)
  define w1 where
    "w1 = w\<lparr>sendmsg_results := rs, trace := trace w @ [E_sendmsg fd (scatter_list mem a)]\<rparr>"
  show ?case
  proof (cases "fst r < 0")
    case True
    with Cons.prems(2) script have "sent' = sent" and "w' = w1"
      by (simp_all add: send_loop_Cons [OF wa] w1_def del: send_loop.simps)
    then show ?thesis
      by (intro exI [of _ 1]) (simp add: w1_def)
  next
    case False
    with Cons.prems(2) script have "send_loop mem fd rest (sent + 1) w1 = Inr (sent', w')"
      by (simp add: send_loop_Cons [OF wa] w1_def del: send_loop.simps)
    from Cons.IH [OF wrest this] obtain m where
      "m \<le> length rest"
      "trace w' = trace w1 @ map (\<lambda>a. E_sendmsg fd (scatter_list mem a)) (take m rest)"
      "sent' = sent + 1 + int m \<or> sent' + 1 = sent + 1 + int m"
      by auto
    then show ?thesis
      by (intro exI [of _ "Suc m"]) (auto simp: w1_def)
  qed
qed

text \<open>The first \<open>k\<close> sends succeed and the next one fails.\<close>

lemma send_loop_fail_at:
  assumes "sendmsg_results w = oks @ (r, e) # rest"
      and "\<forall>x \<in> set oks. 0 \<le> fst x"
      and "r < 0"
      and "length oks < length pkts"
      and "\<forall>a \<in> set (take (Suc (length oks)) pkts). well_chained mem a"
  shows "send_loop mem fd pkts sent w =
           Inr (sent + int (length oks),
                w\<lparr>sendmsg_results := rest,
                   trace := trace w @
                     map (\<lambda>a. E_sendmsg fd (scatter_list mem a)) (take (Suc (length oks)) pkts)\<rparr>)"
  using assms
proof (induction oks arbitrary: pkts sent w)
  case Nil
  then obtain a ps where pkts: "pkts = a # ps" by (cases pkts) auto
  with Nil show ?case
    by (simp add: send_loop_Cons del: send_loop.simps)
next
  case (Cons ok oks)
  then obtain a ps where pkts: "pkts = a # ps" by (cases pkts) auto
  have wa: "well_chained mem a" using Cons.prems(5) pkts by simp
  define w1 where
    "w1 = w\<lparr>sendmsg_results := oks @ (r, e) # rest,
             trace := trace w @ [E_sendmsg fd (scatter_list mem a)]\<rparr>"
  have step: "send_loop mem fd pkts sent w = send_loop mem fd ps (sent + 1) w1"
    using Cons.prems(1,2) by (simp add: pkts send_loop_Cons [OF wa] w1_def del: send_loop.simps)
  have "send_loop mem fd ps (sent + 1) w1 =
          Inr (sent + 1 + int (length oks),
               w1\<lparr>sendmsg_results := rest,
                   trace := trace w1 @
                     map (\<lambda>a. E_sendmsg fd (scatter_list mem a)) (take (Suc (length oks)) ps)\<rparr>)"
    using Cons.prems by (intro Cons.IH) (simp_all add: w1_def pkts)
  then show ?case
    unfolding step by (simp add: w1_def pkts)
qed


text \<open>The transmit path returns whenever the script answers every send it can make.\<close>

lemma send_loop_returns:
  assumes "\<forall>a \<in> set pkts. well_chained mem a"
      and "length pkts \<le> length (sendmsg_results w)"
  shows "\<exists>sent' w'. send_loop mem fd pkts sent w = Inr (sent', w')"
  using assms
proof (induction pkts arbitrary: sent w)
  case Nil
  then show ?case by simp
next
  case (Cons a rest)
  have wa: "well_chained mem a" using Cons.prems(1) by simp
  from Cons.prems(2) obtain r rs where script: "sendmsg_results w = r # rs"
    by (cases "sendmsg_results w") auto
  have "\<exists>sent' w'. send_loop mem fd rest (sent + 1)
          (w\<lparr>sendmsg_results := rs,
             trace := trace w @ [E_sendmsg fd (scatter_list mem a)]\<rparr>) = Inr (sent', w')"
    using Cons.prems script by (intro Cons.IH) simp_all
  then show ?case
    by (auto simp: send_loop_Cons [OF wa] script simp del: send_loop.simps)
qed

lemma SendPackets_returns:
  assumes "\<forall>a \<in> set pkts. well_chained mem a"
      and "length pkts \<le> length (sendmsg_results w)"
  shows "\<exists>sent p' w'. SendPackets mem pkts p w = Inr (sent, p', w')"
  using send_loop_returns [OF assms, of "client_fd p" 0]
  by (auto simp: SendPackets_def)

lemma SendPackets_events:
  assumes "send_loop mem (client_fd p) pkts 0 w = Inr (sent, w1)"
      and "trace w1 = trace w @ es"
  shows "SendPackets mem pkts p w =
           Inr (sent, p, if sent \<noteq> 0 then Free_bulk (take (nat sent) pkts) w1 else w1) \<and>
         events_since w (if sent \<noteq> 0 then Free_bulk (take (nat sent) pkts) w1 else w1) =
           es @ (if sent \<noteq> 0 then [E_Free_bulk (take (nat sent) pkts)] else [])"
  using assms by (simp add: SendPackets_def events_since_def Free_bulk_def)

text \<open>C3: when the sends of the first \<open>k\<close> packets of a batch succeed and the send of the
  next packet fails, \<open>SendPackets\<close> returns \<open>k\<close>; its outside calls are one \<open>sendmsg\<close> for each
  of the first \<open>k + 1\<close> packets, in the order of the batch, and then, when \<open>k\<close> is not 0, one
  release of exactly the first \<open>k\<close> packets; no further send is attempted (the rest of the
  script is not read), and the pool gains the first \<open>k\<close> packets and nothing else.\<close>

theorem SendPackets_stops_at_first_failure:
  assumes "sendmsg_results w = oks @ (r, e) # rest"
      and "\<forall>x \<in> set oks. 0 \<le> fst x"
      and "r < 0"
      and "length oks < length pkts"
      and "\<forall>a \<in> set (take (Suc (length oks)) pkts). well_chained mem a"
  shows "\<exists>w'. SendPackets mem pkts p w = Inr (int (length oks), p, w') \<and>
           events_since w w' =
             map (\<lambda>a. E_sendmsg (client_fd p) (scatter_list mem a)) (take (Suc (length oks)) pkts) @
             (if oks = [] then [] else [E_Free_bulk (take (length oks) pkts)]) \<and>
           sendmsg_results w' = rest \<and>
           pool w' = take (length oks) pkts @ pool w"
proof -
  define w1 where
    "w1 = w\<lparr>sendmsg_results := rest,
             trace := trace w @
               map (\<lambda>a. E_sendmsg (client_fd p) (scatter_list mem a))
                   (take (Suc (length oks)) pkts)\<rparr>"
  have loop: "send_loop mem (client_fd p) pkts 0 w = Inr (int (length oks), w1)"
    using send_loop_fail_at [OF assms, where fd = "client_fd p" and sent = 0] by (simp add: w1_def)
  have tr: "trace w1 = trace w @
      map (\<lambda>a. E_sendmsg (client_fd p) (scatter_list mem a)) (take (Suc (length oks)) pkts)"
    by (simp add: w1_def)
  show ?thesis
    using SendPackets_events [OF loop tr]
    by (auto simp: Free_bulk_def w1_def)
qed

text \<open>The packets of the examples.\<close>

lemma scatter_list_demo_single:
  "a \<noteq> 200 \<Longrightarrow>
   scatter_list mem_demo a = [\<lparr>iov_base = 4096 * a + 128, iov_len = 64\<rparr>]"
  by (simp add: scatter_list_def mem_demo_def seg_iovec_def)

lemma well_chained_demo_single: "a \<noteq> 200 \<Longrightarrow> well_chained mem_demo a"
  by (simp add: well_chained_def mem_demo_def)

lemma chain_demo_200:
  "chain mem_demo (nb_segs (mem_demo 200)) (Some 200) =
     Some [200, 201, 202, 203, 204, 205, 206, 207, 208, 209, 210, 211]"
proof -
  have n: "nb_segs (mem_demo 200) =
      Suc (Suc (Suc (Suc (Suc (Suc (Suc (Suc (Suc (Suc (Suc (Suc 0)))))))))))"
    by (simp add: mem_demo_def)
  show ?thesis
    unfolding n by (simp add: mem_demo_def)
qed

theorem SendPackets_stops_at_first_failure_witness:
  "sendmsg_results world_send_2_of_5 =
     [(64, EINTR), (64, EINTR)] @ (- 1, EPIPE) # [(64, EINTR)] \<and>
   (0 :: int) \<le> 64 \<and> (- 1 :: int) < 0 \<and>
   length [(64 :: int, EINTR), (64, EINTR)] < length [300, 301, 302, 303, 304 :: nat] \<and>
   well_chained mem_demo 300 \<and> well_chained mem_demo 301 \<and> well_chained mem_demo 302 \<and>
   (\<exists>w'. SendPackets mem_demo [300, 301, 302, 303, 304] port_connected world_send_2_of_5 =
           Inr (2, port_connected, w') \<and>
         events_since world_send_2_of_5 w' =
           [E_sendmsg 4 [\<lparr>iov_base = 1228928, iov_len = 64\<rparr>],
            E_sendmsg 4 [\<lparr>iov_base = 1233024, iov_len = 64\<rparr>],
            E_sendmsg 4 [\<lparr>iov_base = 1237120, iov_len = 64\<rparr>],
            E_Free_bulk [300, 301]] \<and>
         sendmsg_results w' = [(64, EINTR)] \<and>
         pool w' = [300, 301, 100, 101])"
proof -
  have script: "sendmsg_results world_send_2_of_5 =
      [(64, EINTR), (64, EINTR)] @ (- 1, EPIPE) # [(64, EINTR)]"
    by (simp add: world_send_2_of_5_def)
  have oks: "\<forall>x \<in> set [(64 :: int, EINTR), (64, EINTR)]. 0 \<le> fst x"
    by simp
  have neg: "(- 1 :: int) < 0" by simp
  have len: "length [(64 :: int, EINTR), (64, EINTR)] < length [300, 301, 302, 303, 304 :: nat]"
    by simp
  have wc: "\<forall>a \<in> set (take (Suc (length [(64 :: int, EINTR), (64, EINTR)]))
              [300, 301, 302, 303, 304 :: nat]). well_chained mem_demo a"
    by (simp add: well_chained_demo_single)
  have pool: "pool world_send_2_of_5 = [100, 101]"
    by (simp add: world_send_2_of_5_def world_connected_def world_listening_def world_boot_def)
  have fd: "client_fd port_connected = 4"
    by (simp add: port_connected_def)
  from SendPackets_stops_at_first_failure [OF script oks neg len wc, of port_connected]
  show ?thesis
    using script pool
    by (simp add: fd scatter_list_demo_single well_chained_demo_single)
qed





lemma scatter_list_nth:
  assumes "chain mem (nb_segs (mem a)) (Some a) = Some segs"
  shows "length segs = nb_segs (mem a) \<and>
         length (scatter_list mem a) = nb_segs (mem a) \<and>
         (\<forall>j < nb_segs (mem a).
            scatter_list mem a ! j =
              \<lparr>iov_base = head_data (mem (segs ! j)), iov_len = head_len (mem (segs ! j))\<rparr>)"
  using chain_length [OF assms]
  by (simp add: scatter_list_def assms seg_iovec_def)

lemma sends_Cons_failed:
  "fst r < 0 \<Longrightarrow> sends_ok (Suc n) (r # rs) = 0 \<and> sends_made (Suc n) (r # rs) = 1"
  by (simp add: sends_ok_def sends_made_def)

lemma sends_Cons_ok:
  "\<not> fst r < 0 \<Longrightarrow>
   sends_ok (Suc n) (r # rs) = Suc (sends_ok n rs) \<and>
   sends_made (Suc n) (r # rs) = Suc (sends_made n rs)"
  by (simp add: sends_ok_def sends_made_def)

lemma sends_all_ok:
  assumes "n \<le> length script" and "\<forall>x \<in> set (take n script). 0 \<le> fst x"
  shows "sends_ok n script = n \<and> sends_made n script = n"
proof -
  have eq: "takeWhile (\<lambda>x. \<not> fst x < 0) (take n script) = take n script"
    using assms(2) by (intro takeWhile_eq_all_conv [THEN iffD2]) auto
  show ?thesis
    unfolding sends_ok_def sends_made_def eq using assms(1) by simp
qed

text \<open>The outer loop on a batch of packets that have their chains, with a script that
  answers every send: the sends it makes, what it returns and what it leaves of the
  script.\<close>

lemma send_loop_total:
  assumes "\<forall>a \<in> set pkts. well_chained mem a"
      and "sendmsg_results w = script"
      and "length pkts \<le> length script"
  shows "send_loop mem fd pkts sent w =
           Inr (sent + int (sends_ok (length pkts) script),
                w\<lparr>sendmsg_results := drop (sends_made (length pkts) script) script,
                   trace := trace w @
                     map (\<lambda>a. E_sendmsg fd (scatter_list mem a))
                         (take (sends_made (length pkts) script) pkts)\<rparr>)"
  using assms
proof (induction pkts arbitrary: sent w script)
  case Nil
  then show ?case
    by (simp add: sends_ok_def sends_made_def)
next
  case (Cons a rest)
  have wa: "well_chained mem a" and wrest: "\<forall>a \<in> set rest. well_chained mem a"
    using Cons.prems(1) by simp_all
  from Cons.prems(3) obtain r rs where script: "script = r # rs"
    by (cases script) auto
  define w1 where
    "w1 = w\<lparr>sendmsg_results := rs, trace := trace w @ [E_sendmsg fd (scatter_list mem a)]\<rparr>"
  show ?case
  proof (cases "fst r < 0")
    case True
    have "send_loop mem fd (a # rest) sent w = Inr (sent, w1)"
      using True Cons.prems(2) script
      by (simp add: send_loop_Cons [OF wa] w1_def del: send_loop.simps)
    then show ?thesis
      using sends_Cons_failed [OF True, of "length rest" rs]
      by (simp add: script w1_def)
  next
    case False
    have step: "send_loop mem fd (a # rest) sent w = send_loop mem fd rest (sent + 1) w1"
      using False Cons.prems(2) script
      by (simp add: send_loop_Cons [OF wa] w1_def del: send_loop.simps)
    have "send_loop mem fd rest (sent + 1) w1 =
            Inr (sent + 1 + int (sends_ok (length rest) rs),
                 w1\<lparr>sendmsg_results := drop (sends_made (length rest) rs) rs,
                     trace := trace w1 @
                       map (\<lambda>a. E_sendmsg fd (scatter_list mem a))
                           (take (sends_made (length rest) rs) rest)\<rparr>)"
      using Cons.prems(3) by (intro Cons.IH [OF wrest]) (simp_all add: w1_def script)
    then show ?thesis
      unfolding step using sends_Cons_ok [OF False, of "length rest" rs]
      by (simp add: script w1_def)
  qed
qed


text \<open>C7: for a batch of packets that have their segment chains (the \<open>nb_segs\<close> segments
  linked from each head) and a script that answers every send, \<open>SendPackets\<close> returns, and
  its outside calls are fixed: one \<open>sendmsg\<close> on the client slot for each packet of the
  batch in order, up to and including the first whose send fails (for every packet, when
  no send fails), then the release of the packets sent. The message of a packet is the
  scatter list of its chain, which is what the inner loop builds: as many entries as the
  packet has segments, entry \<open>j\<close> holding the data pointer and the length of segment \<open>j\<close>.
  No segment count is excluded: nothing in \<open>SendPackets\<close> compares it with
  \<open>MAX_TX_FRAGS\<close>.\<close>

theorem SendPackets_one_entry_per_segment:
  assumes "\<forall>a \<in> set pkts. well_chained mem a"
      and "length pkts \<le> length (sendmsg_results w)"
  shows "(\<exists>w'. SendPackets mem pkts p w =
                 Inr (int (sends_ok (length pkts) (sendmsg_results w)), p, w') \<and>
               events_since w w' =
                 map (\<lambda>a. E_sendmsg (client_fd p) (scatter_list mem a))
                     (take (sends_made (length pkts) (sendmsg_results w)) pkts) @
                 (if sends_ok (length pkts) (sendmsg_results w) \<noteq> 0
                  then [E_Free_bulk (take (sends_ok (length pkts) (sendmsg_results w)) pkts)]
                  else []) \<and>
               sendmsg_results w' =
                 drop (sends_made (length pkts) (sendmsg_results w)) (sendmsg_results w)) \<and>
         ((\<forall>x \<in> set (take (length pkts) (sendmsg_results w)). 0 \<le> fst x) \<longrightarrow>
            sends_ok (length pkts) (sendmsg_results w) = length pkts \<and>
            sends_made (length pkts) (sendmsg_results w) = length pkts) \<and>
         (\<forall>a \<in> set pkts.
            fill_iov mem (nb_segs (mem a)) 0 (Some a) (iov_array (nb_segs (mem a))) =
              Inr (scatter_list mem a) \<and>
            (\<exists>segs. chain mem (nb_segs (mem a)) (Some a) = Some segs \<and>
               length segs = nb_segs (mem a) \<and>
               length (scatter_list mem a) = nb_segs (mem a) \<and>
               (\<forall>j < nb_segs (mem a).
                  scatter_list mem a ! j =
                    \<lparr>iov_base = head_data (mem (segs ! j)),
                     iov_len = head_len (mem (segs ! j))\<rparr>)))"
proof -
  let ?k = "sends_ok (length pkts) (sendmsg_results w)"
  let ?m = "sends_made (length pkts) (sendmsg_results w)"
  define w1 where
    "w1 = w\<lparr>sendmsg_results := drop ?m (sendmsg_results w),
             trace := trace w @
               map (\<lambda>a. E_sendmsg (client_fd p) (scatter_list mem a)) (take ?m pkts)\<rparr>"
  have loop: "send_loop mem (client_fd p) pkts 0 w = Inr (int ?k, w1)"
    using send_loop_total [OF assms(1) refl assms(2), of "client_fd p" 0]
    by (simp add: w1_def)
  have tr: "trace w1 = trace w @
      map (\<lambda>a. E_sendmsg (client_fd p) (scatter_list mem a)) (take ?m pkts)"
    by (simp add: w1_def)
  have first: "\<exists>w'. SendPackets mem pkts p w = Inr (int ?k, p, w') \<and>
               events_since w w' =
                 map (\<lambda>a. E_sendmsg (client_fd p) (scatter_list mem a)) (take ?m pkts) @
                 (if ?k \<noteq> 0 then [E_Free_bulk (take ?k pkts)] else []) \<and>
               sendmsg_results w' = drop ?m (sendmsg_results w)"
    using SendPackets_events [OF loop tr]
    by (auto simp: Free_bulk_def w1_def)
  have second: "?k = length pkts \<and> ?m = length pkts"
    if "\<forall>x \<in> set (take (length pkts) (sendmsg_results w)). 0 \<le> fst x"
    using sends_all_ok [OF assms(2) that] .
  have third: "fill_iov mem (nb_segs (mem a)) 0 (Some a) (iov_array (nb_segs (mem a))) =
              Inr (scatter_list mem a) \<and>
            (\<exists>segs. chain mem (nb_segs (mem a)) (Some a) = Some segs \<and>
               length segs = nb_segs (mem a) \<and>
               length (scatter_list mem a) = nb_segs (mem a) \<and>
               (\<forall>j < nb_segs (mem a).
                  scatter_list mem a ! j =
                    \<lparr>iov_base = head_data (mem (segs ! j)),
                     iov_len = head_len (mem (segs ! j))\<rparr>))"
    if "a \<in> set pkts" for a
  proof -
    from that assms(1) have wc: "well_chained mem a" by blast
    then obtain segs where c: "chain mem (nb_segs (mem a)) (Some a) = Some segs"
      by (auto simp: well_chained_def)
    show ?thesis
      using fill_iov_scatter_list [OF wc] scatter_list_nth [OF c] c by blast
  qed
  from first second third show ?thesis by blast
qed

lemma scatter_list_demo_200:
  "scatter_list mem_demo 200 =
     [\<lparr>iov_base = 819328, iov_len = 64\<rparr>, \<lparr>iov_base = 823424, iov_len = 64\<rparr>,
      \<lparr>iov_base = 827520, iov_len = 64\<rparr>, \<lparr>iov_base = 831616, iov_len = 64\<rparr>,
      \<lparr>iov_base = 835712, iov_len = 64\<rparr>, \<lparr>iov_base = 839808, iov_len = 64\<rparr>,
      \<lparr>iov_base = 843904, iov_len = 64\<rparr>, \<lparr>iov_base = 848000, iov_len = 64\<rparr>,
      \<lparr>iov_base = 852096, iov_len = 64\<rparr>, \<lparr>iov_base = 856192, iov_len = 64\<rparr>,
      \<lparr>iov_base = 860288, iov_len = 64\<rparr>, \<lparr>iov_base = 864384, iov_len = 64\<rparr>]"
  unfolding scatter_list_def chain_demo_200
  by (simp add: seg_iovec_def mem_demo_def)

theorem SendPackets_one_entry_per_segment_witness:
  "well_chained mem_demo 200 \<and> well_chained mem_demo 300 \<and>
   MAX_TX_FRAGS < nb_segs (mem_demo 200) \<and>
   sendmsg_results world_send_all = [(768, EINTR), (64, EINTR), (64, EINTR)] \<and>
   length [200, 300 :: nat] \<le> length (sendmsg_results world_send_all) \<and>
   (\<exists>w'. SendPackets mem_demo [200, 300] port_connected world_send_all =
           Inr (2, port_connected, w') \<and>
         events_since world_send_all w' =
           [E_sendmsg 4 (scatter_list mem_demo 200),
            E_sendmsg 4 [\<lparr>iov_base = 1228928, iov_len = 64\<rparr>],
            E_Free_bulk [200, 300]] \<and>
         sendmsg_results w' = [(64, EINTR)]) \<and>
   length (scatter_list mem_demo 200) = 12 \<and>
   scatter_list mem_demo 200 ! 11 = \<lparr>iov_base = 864384, iov_len = 64\<rparr> \<and>
   fill_iov mem_demo 12 0 (Some 200) (iov_array 12) = Inr (scatter_list mem_demo 200)"
proof -
  have wc: "well_chained mem_demo 200"
    by (simp add: well_chained_def chain_demo_200)
  then have wcs: "\<forall>a \<in> set [200, 300]. well_chained mem_demo a"
    by (simp add: well_chained_demo_single)
  have n: "nb_segs (mem_demo 200) = 12"
    by (simp add: mem_demo_def)
  have script: "sendmsg_results world_send_all = [(768, EINTR), (64, EINTR), (64, EINTR)]"
    by (simp add: world_send_all_def)
  have len: "length [200, 300 :: nat] \<le> length (sendmsg_results world_send_all)"
    by (simp add: script)
  have k: "sends_ok (length [200, 300 :: nat]) (sendmsg_results world_send_all) = 2"
    "sends_made (length [200, 300 :: nat]) (sendmsg_results world_send_all) = 2"
    by (simp_all add: script sends_ok_def sends_made_def)
  have fd: "client_fd port_connected = 4"
    by (simp add: port_connected_def)
  note inst = SendPackets_one_entry_per_segment [OF wcs len, of port_connected]
  from inst have run: "\<exists>w'. SendPackets mem_demo [200, 300] port_connected world_send_all =
           Inr (2, port_connected, w') \<and>
         events_since world_send_all w' =
           [E_sendmsg 4 (scatter_list mem_demo 200),
            E_sendmsg 4 [\<lparr>iov_base = 1228928, iov_len = 64\<rparr>],
            E_Free_bulk [200, 300]] \<and>
         sendmsg_results w' = [(64, EINTR)]"
    unfolding k by (simp add: fd script scatter_list_demo_single)
  from inst have "fill_iov mem_demo (nb_segs (mem_demo 200)) 0 (Some 200)
          (iov_array (nb_segs (mem_demo 200))) = Inr (scatter_list mem_demo 200)"
    by simp
  then show ?thesis
    using wc run script
    by (simp add: n MAX_TX_FRAGS_def well_chained_demo_single scatter_list_demo_200)
qed

subsection \<open>RecvPackets\<close>

lemma allocated_append: "allocated (es @ es') = allocated es @ allocated es'"
  by (induction es rule: allocated.induct) simp_all

lemma released_append: "released (es @ es') = released es @ released es'"
  by (induction es rule: released.induct) simp_all

lemma pool_put_back:
  "pool w = xs \<Longrightarrow>
   w\<lparr>recv_results := rs, pool := xs, trace := t\<rparr> = w\<lparr>recv_results := rs, trace := t\<rparr>"
  by (cases w) simp

text \<open>One turn of the receive loop, with the outside calls written out: a buffer that is
  released goes back to the head of the pool, which is then as it was.\<close>

lemma recv_loop_turn:
  "recv_loop nc cnt pkts p w =
     (if int (length pkts) < cnt then
        (case pool w of
           [] \<Rightarrow> Inr (pkts, p, w\<lparr>trace := trace w @ [E_Alloc None]\<rparr>)
         | b # bs \<Rightarrow>
             (case recv_results w of
                [] \<Rightarrow> Inl NoAnswer
              | (ret, err) # rs \<Rightarrow>
                  if 0 < ret
                  then recv_loop nc cnt (pkts @ [b]) p
                         (w\<lparr>pool := bs, recv_results := rs,
                            trace := trace w @
                              [E_Alloc (Some b), E_recv (client_fd p) b, E_append b ret]\<rparr>)
                  else if ret < 0 \<and> (err = EAGAIN \<or> err = EWOULDBLOCK)
                  then Inr (pkts, p,
                            w\<lparr>recv_results := rs,
                               trace := trace w @
                                 [E_Alloc (Some b), E_recv (client_fd p) b, E_Free b]\<rparr>)
                  else if ret < 0 \<and> err = EINTR
                  then recv_loop nc cnt pkts p
                         (w\<lparr>recv_results := rs,
                            trace := trace w @
                              [E_Alloc (Some b), E_recv (client_fd p) b, E_Free b]\<rparr>)
                  else Inr (pkts, p\<lparr>old_client_fd := client_fd p, client_fd := nc\<rparr>,
                            w\<lparr>recv_results := rs,
                               trace := trace w @
                                 [E_Alloc (Some b), E_recv (client_fd p) b, E_Free b,
                                  E_thread_AcceptThreadMain]\<rparr>)))
      else Inr (pkts, p, w))"
  by (subst recv_loop.simps)
     (simp add: Alloc_def sys_recv_def append_def Free_def CloseConnection_def
        thread_AcceptThreadMain_def Let_def pool_put_back split: list.splits)


text \<open>What the loop does with buffers, on every path that returns: the packets it adds to
  the output and the buffers it releases are exactly the buffers it has allocated, and
  what has left the pool is exactly what it added to the output.\<close>

lemma recv_loop_buffers:
  assumes "recv_loop nc cnt pkts p w = Inr (pkts', p', w')"
  shows "\<exists>new es. pkts' = pkts @ new \<and> trace w' = trace w @ es \<and>
           mset (allocated es) = mset new + mset (released es) \<and>
           mset (pool w) = mset new + mset (pool w') \<and>
           (new \<noteq> [] \<longrightarrow> int (length pkts') \<le> cnt)"
  using assms
proof (induction n \<equiv> "length (recv_results w)" arbitrary: pkts w rule: less_induct)
  case less
  note run = less.prems
  show ?case
  proof (cases "int (length pkts) < cnt")
    case False
    with run have "pkts' = pkts" "w' = w"
      by (auto simp: recv_loop_turn [of nc cnt pkts])
    then show ?thesis
      by (intro exI [of _ "[]"]) simp
  next
    case room: True
    show ?thesis
    proof (cases "pool w")
      case Nil
      with run room have "pkts' = pkts" "w' = w\<lparr>trace := trace w @ [E_Alloc None]\<rparr>"
        by (auto simp: recv_loop_turn [of nc cnt pkts])
      then show ?thesis
        using Nil by (intro exI [of _ "[]"] exI [of _ "[E_Alloc None]"]) simp
    next
      case (Cons b bs)
      with run room obtain ret err rs where script: "recv_results w = (ret, err) # rs"
        by (cases "recv_results w") (auto simp: recv_loop_turn)
      let ?fd = "client_fd p"
      consider (data) "0 < ret"
        | (again) "\<not> 0 < ret" "ret < 0 \<and> (err = EAGAIN \<or> err = EWOULDBLOCK)"
        | (intr) "\<not> 0 < ret" "\<not> (ret < 0 \<and> (err = EAGAIN \<or> err = EWOULDBLOCK))"
            "ret < 0 \<and> err = EINTR"
        | (closed) "\<not> 0 < ret" "\<not> (ret < 0 \<and> (err = EAGAIN \<or> err = EWOULDBLOCK))"
            "\<not> (ret < 0 \<and> err = EINTR)"
        by blast
      then show ?thesis
      proof cases
        case data
        define w1 where
          "w1 = w\<lparr>pool := bs, recv_results := rs,
                   trace := trace w @ [E_Alloc (Some b), E_recv ?fd b, E_append b ret]\<rparr>"
        from run room Cons script data
        have "recv_loop nc cnt (pkts @ [b]) p w1 = Inr (pkts', p', w')"
          by (simp add: recv_loop_turn [of nc cnt pkts] w1_def)
        moreover have "length (recv_results w1) < length (recv_results w)"
          by (simp add: w1_def script)
        ultimately obtain new es where
          "pkts' = (pkts @ [b]) @ new" "trace w' = trace w1 @ es"
          "mset (allocated es) = mset new + mset (released es)"
          "mset (pool w1) = mset new + mset (pool w')"
          using less.hyps by blast
        moreover have "int (length pkts') \<le> cnt"
          using less.hyps [OF \<open>length (recv_results w1) < length (recv_results w)\<close>
              \<open>recv_loop nc cnt (pkts @ [b]) p w1 = Inr (pkts', p', w')\<close>] room
          by auto
        ultimately show ?thesis
          using Cons
          by (intro exI [of _ "b # new"]
                exI [of _ "[E_Alloc (Some b), E_recv ?fd b, E_append b ret] @ es"])
             (simp add: w1_def allocated_append released_append)
      next
        case again
        with run room Cons script have "pkts' = pkts"
          "w' = w\<lparr>recv_results := rs,
                  trace := trace w @ [E_Alloc (Some b), E_recv ?fd b, E_Free b]\<rparr>"
          by (auto simp: recv_loop_turn [of nc cnt pkts])
        then show ?thesis
          by (intro exI [of _ "[]"] exI [of _ "[E_Alloc (Some b), E_recv ?fd b, E_Free b]"])
             simp
      next
        case intr
        define w1 where
          "w1 = w\<lparr>recv_results := rs,
                   trace := trace w @ [E_Alloc (Some b), E_recv ?fd b, E_Free b]\<rparr>"
        from run room Cons script intr
        have "recv_loop nc cnt pkts p w1 = Inr (pkts', p', w')"
          by (simp add: recv_loop_turn [of nc cnt pkts] w1_def)
        moreover have "length (recv_results w1) < length (recv_results w)"
          by (simp add: w1_def script)
        ultimately obtain new es where
          "pkts' = pkts @ new" "trace w' = trace w1 @ es"
          "mset (allocated es) = mset new + mset (released es)"
          "mset (pool w1) = mset new + mset (pool w')"
          "new \<noteq> [] \<longrightarrow> int (length pkts') \<le> cnt"
          using less.hyps by blast
        then show ?thesis
          by (intro exI [of _ new]
                exI [of _ "[E_Alloc (Some b), E_recv ?fd b, E_Free b] @ es"])
             (simp add: w1_def allocated_append released_append)
      next
        case closed
        with run room Cons script have "pkts' = pkts"
          "w' = w\<lparr>recv_results := rs,
                  trace := trace w @ [E_Alloc (Some b), E_recv ?fd b, E_Free b,
                                      E_thread_AcceptThreadMain]\<rparr>"
          by (auto simp: recv_loop_turn [of nc cnt pkts])
        then show ?thesis
          by (intro exI [of _ "[]"]
                exI [of _ "[E_Alloc (Some b), E_recv ?fd b, E_Free b,
                            E_thread_AcceptThreadMain]"])
             simp
      qed
    qed
  qed
qed


text \<open>The loop returns as soon as the script holds a read that ends it: one that is neither
  a datagram nor an interrupted call.\<close>

lemma recv_loop_returns:
  assumes "\<exists>x \<in> set (recv_results w). \<not> 0 < fst x \<and> \<not> (fst x < 0 \<and> snd x = EINTR)"
  shows "\<exists>pkts' p' w'. recv_loop nc cnt pkts p w = Inr (pkts', p', w')"
  using assms
proof (induction n \<equiv> "length (recv_results w)" arbitrary: pkts w rule: less_induct)
  case less
  from less.prems obtain ret err rs where script: "recv_results w = (ret, err) # rs"
    by (cases "recv_results w") auto
  show ?case
  proof (cases "int (length pkts) < cnt \<and> pool w \<noteq> [] \<and>
                (0 < ret \<or> (ret < 0 \<and> err = EINTR))")
    case False
    then show ?thesis
      by (subst recv_loop_turn) (auto simp: script split: list.splits)
  next
    case True
    then obtain b bs where pool: "pool w = b # bs"
      by (cases "pool w") auto
    from True less.prems script
    have later: "\<exists>x \<in> set rs. \<not> 0 < fst x \<and> \<not> (fst x < 0 \<and> snd x = EINTR)"
      by auto
    have IH: "\<exists>pkts' p' w'. recv_loop nc cnt pkts1 p (w\<lparr>pool := bs1, recv_results := rs, trace := t\<rparr>) =
        Inr (pkts', p', w')"
      for pkts1 bs1 t
      using later by (intro less.hyps) (simp_all add: script)
    have IH': "\<exists>pkts' p' w'. recv_loop nc cnt pkts1 p (w\<lparr>recv_results := rs, trace := t\<rparr>) =
        Inr (pkts', p', w')"
      for pkts1 t
      using later by (intro less.hyps) (simp_all add: script)
    from True show ?thesis
      by (subst recv_loop_turn) (auto simp: script pool IH IH')
  qed
qed


lemma RecvPackets_returns:
  assumes "\<exists>x \<in> set (recv_results w). \<not> 0 < fst x \<and> \<not> (fst x < 0 \<and> snd x = EINTR)"
  shows "\<exists>pkts' p' w'. RecvPackets nc cnt p w = Inr (pkts', p', w')"
  using recv_loop_returns [OF assms, of nc cnt "[]" p]
  by (auto simp: RecvPackets_def)

text \<open>C8: on every path on which \<open>RecvPackets\<close> returns, the buffers it has allocated are,
  counted with multiplicity, the returned packets together with the buffers it has
  released; what is gone from the pool is exactly the returned packets; and these fit the
  output array (at most \<open>cnt\<close> of them).\<close>

theorem RecvPackets_no_buffer_leak:
  assumes "RecvPackets nc cnt p w = Inr (pkts, p', w')"
  shows "mset (allocated (events_since w w')) =
           mset pkts + mset (released (events_since w w')) \<and>
         mset (pool w) = mset pkts + mset (pool w') \<and>
         (pkts \<noteq> [] \<longrightarrow> int (length pkts) \<le> cnt)"
proof (cases "client_fd p = nc \<or> recv_skip_cnt p \<noteq> 0")
  case True
  with assms have "pkts = []" "w' = w"
    by (auto simp: RecvPackets_def split: if_splits)
  then show ?thesis
    by (simp add: events_since_def)
next
  case False
  with assms obtain p1 where "recv_loop nc cnt [] p w = Inr (pkts, p1, w')"
    by (auto simp: RecvPackets_def split: sum.splits)
  from recv_loop_buffers [OF this] show ?thesis
    by (auto simp: events_since_def)
qed

theorem RecvPackets_no_buffer_leak_witness:
  "RecvPackets (- 1) 4 port_connected world_recv_mixed =
     Inr ([100, 101], port_connected\<lparr>client_fd := - 1, old_client_fd := 4\<rparr>,
          world_recv_mixed\<lparr>pool := [102], recv_results := [],
            trace := trace world_recv_mixed @
              [E_Alloc (Some 100), E_recv 4 100, E_append 100 2,
               E_Alloc (Some 101), E_recv 4 101, E_Free 101,
               E_Alloc (Some 101), E_recv 4 101, E_append 101 3,
               E_Alloc (Some 102), E_recv 4 102, E_Free 102,
               E_thread_AcceptThreadMain]\<rparr>) \<and>
   mset [100, 101, 101, 102 :: nat] = mset [100, 101] + mset [101, 102] \<and>
   mset (pool world_recv_mixed) = mset [100, 101 :: nat] + mset [102]"
proof -
  let ?w' = "world_recv_mixed\<lparr>pool := [102], recv_results := [],
            trace := trace world_recv_mixed @
              [E_Alloc (Some 100), E_recv 4 100, E_append 100 2,
               E_Alloc (Some 101), E_recv 4 101, E_Free 101,
               E_Alloc (Some 101), E_recv 4 101, E_append 101 3,
               E_Alloc (Some 102), E_recv 4 102, E_Free 102,
               E_thread_AcceptThreadMain]\<rparr>"
  have run: "RecvPackets (- 1) 4 port_connected world_recv_mixed =
     Inr ([100, 101], port_connected\<lparr>client_fd := - 1, old_client_fd := 4\<rparr>, ?w')"
    by (simp add: RecvPackets_def recv_loop_turn world_recv_mixed_def port_connected_def
          port_listening_def)
  have ev: "events_since world_recv_mixed ?w' =
              [E_Alloc (Some 100), E_recv 4 100, E_append 100 2,
               E_Alloc (Some 101), E_recv 4 101, E_Free 101,
               E_Alloc (Some 101), E_recv 4 101, E_append 101 3,
               E_Alloc (Some 102), E_recv 4 102, E_Free 102,
               E_thread_AcceptThreadMain]"
    by (simp add: events_since_def)
  from RecvPackets_no_buffer_leak [OF run] show ?thesis
    unfolding ev using run by simp
qed

lemma world_same:
  "pool w = xs \<Longrightarrow> recv_results w = rs \<Longrightarrow>
   w\<lparr>pool := xs, recv_results := rs, trace := trace w\<rparr> = w"
  by (cases w) simp

text \<open>Turns that read a datagram each.\<close>

lemma recv_loop_data:
  assumes "recv_results w = oks @ rest"
      and "\<forall>x \<in> set oks. 0 < fst x"
      and "pool w = bufs @ pool'"
      and "length bufs = length oks"
      and "int (length pkts + length oks) \<le> cnt"
  shows "recv_loop nc cnt pkts p w =
           recv_loop nc cnt (pkts @ bufs) p
             (w\<lparr>pool := pool', recv_results := rest,
                trace := trace w @ received_events (client_fd p) bufs oks\<rparr>)"
  using assms
proof (induction oks arbitrary: pkts w bufs)
  case Nil
  then show ?case
    by (simp add: received_events_def world_same)
next
  case (Cons ok oks)
  then obtain b bufs' where bufs: "bufs = b # bufs'"
    by (cases bufs) auto
  obtain ret err where ok: "ok = (ret, err)" by (cases ok)
  with Cons.prems have pos: "0 < ret" by simp
  define w1 where
    "w1 = w\<lparr>pool := bufs' @ pool', recv_results := oks @ rest,
             trace := trace w @ [E_Alloc (Some b), E_recv (client_fd p) b, E_append b ret]\<rparr>"
  have step: "recv_loop nc cnt pkts p w = recv_loop nc cnt (pkts @ [b]) p w1"
    using Cons.prems pos
    by (subst recv_loop_turn) (simp add: bufs ok w1_def)
  have "recv_loop nc cnt (pkts @ [b]) p w1 =
          recv_loop nc cnt ((pkts @ [b]) @ bufs') p
            (w1\<lparr>pool := pool', recv_results := rest,
                 trace := trace w1 @ received_events (client_fd p) bufs' oks\<rparr>)"
    using Cons.prems by (intro Cons.IH) (simp_all add: w1_def bufs)
  then show ?case
    unfolding step by (simp add: w1_def bufs ok received_events_def)
qed


text \<open>C5: while \<open>RecvPackets\<close> is in its loop with room left in the output array, a read
  that fails with an error other than \<open>EAGAIN\<close>, \<open>EWOULDBLOCK\<close> and \<open>EINTR\<close> ends the loop
  there: the buffer just allocated is released (the pool is as before the turn),
  \<open>CloseConnection\<close> has run (the client descriptor is in the retiring slot, the client
  slot holds \<open>kNotConnectedFd\<close>, an acceptance thread is started), no further read is made,
  and the packets received so far are returned. The first conjunct says this of any
  state of the loop, the second of a call whose earlier reads each returned a datagram.\<close>

theorem RecvPackets_read_error_closes:
  assumes "r < 0" and "e \<noteq> EAGAIN" and "e \<noteq> EWOULDBLOCK" and "e \<noteq> EINTR"
  shows "(int (length pkts) < cnt \<and> pool w0 = b0 # bs0 \<and> recv_results w0 = (r, e) # rest0 \<longrightarrow>
            recv_loop nc cnt pkts p w0 =
              Inr (pkts, p\<lparr>old_client_fd := client_fd p, client_fd := nc\<rparr>,
                   w0\<lparr>recv_results := rest0,
                      trace := trace w0 @
                        [E_Alloc (Some b0), E_recv (client_fd p) b0, E_Free b0,
                         E_thread_AcceptThreadMain]\<rparr>)) \<and>
         (client_fd p \<noteq> nc \<and> recv_skip_cnt p = 0 \<and>
          recv_results w = oks @ (r, e) # rest \<and> (\<forall>x \<in> set oks. 0 < fst x) \<and>
          pool w = bufs @ b # bs \<and> length bufs = length oks \<and> int (length oks) < cnt \<longrightarrow>
            (\<exists>p' w'. RecvPackets nc cnt p w = Inr (bufs, p', w') \<and>
               old_client_fd p' = client_fd p \<and> client_fd p' = nc \<and>
               listen_fd p' = listen_fd p \<and>
               events_since w w' =
                 received_events (client_fd p) bufs oks @
                 [E_Alloc (Some b), E_recv (client_fd p) b, E_Free b,
                  E_thread_AcceptThreadMain] \<and>
               pool w' = b # bs \<and> recv_results w' = rest))"
proof (intro conjI impI)
  assume "int (length pkts) < cnt \<and> pool w0 = b0 # bs0 \<and> recv_results w0 = (r, e) # rest0"
  then show "recv_loop nc cnt pkts p w0 =
              Inr (pkts, p\<lparr>old_client_fd := client_fd p, client_fd := nc\<rparr>,
                   w0\<lparr>recv_results := rest0,
                      trace := trace w0 @
                        [E_Alloc (Some b0), E_recv (client_fd p) b0, E_Free b0,
                         E_thread_AcceptThreadMain]\<rparr>)"
    using assms by (subst recv_loop_turn) simp
next
  assume a: "client_fd p \<noteq> nc \<and> recv_skip_cnt p = 0 \<and>
          recv_results w = oks @ (r, e) # rest \<and> (\<forall>x \<in> set oks. 0 < fst x) \<and>
          pool w = bufs @ b # bs \<and> length bufs = length oks \<and> int (length oks) < cnt"
  define w1 where
    "w1 = w\<lparr>pool := b # bs, recv_results := (r, e) # rest,
             trace := trace w @ received_events (client_fd p) bufs oks\<rparr>"
  have "recv_loop nc cnt [] p w = recv_loop nc cnt ([] @ bufs) p w1"
    unfolding w1_def using a by (intro recv_loop_data) simp_all
  also have "\<dots> =
      Inr (bufs, p\<lparr>old_client_fd := client_fd p, client_fd := nc\<rparr>,
           w1\<lparr>recv_results := rest,
              trace := trace w1 @
                [E_Alloc (Some b), E_recv (client_fd p) b, E_Free b,
                 E_thread_AcceptThreadMain]\<rparr>)"
    using assms a by (subst recv_loop_turn) (simp add: w1_def)
  finally show "\<exists>p' w'. RecvPackets nc cnt p w = Inr (bufs, p', w') \<and>
               old_client_fd p' = client_fd p \<and> client_fd p' = nc \<and>
               listen_fd p' = listen_fd p \<and>
               events_since w w' =
                 received_events (client_fd p) bufs oks @
                 [E_Alloc (Some b), E_recv (client_fd p) b, E_Free b,
                  E_thread_AcceptThreadMain] \<and>
               pool w' = b # bs \<and> recv_results w' = rest"
    using a by (simp add: RecvPackets_def w1_def events_since_def)
qed


theorem RecvPackets_read_error_closes_witness:
  "(- 1 :: int) < 0 \<and> ECONNRESET \<noteq> EAGAIN \<and> ECONNRESET \<noteq> EWOULDBLOCK \<and>
   ECONNRESET \<noteq> EINTR \<and>
   client_fd port_connected \<noteq> - 1 \<and> recv_skip_cnt port_connected = 0 \<and>
   recv_results world_recv_reset =
     [(2, EINTR), (3, EINTR)] @ (- 1, ECONNRESET) # [(5, EINTR)] \<and>
   pool world_recv_reset = [100, 101] @ 102 # [] \<and>
   (\<exists>p' w'. RecvPackets (- 1) 4 port_connected world_recv_reset = Inr ([100, 101], p', w') \<and>
      old_client_fd p' = 4 \<and> client_fd p' = - 1 \<and> listen_fd p' = 3 \<and>
      events_since world_recv_reset w' =
        [E_Alloc (Some 100), E_recv 4 100, E_append 100 2,
         E_Alloc (Some 101), E_recv 4 101, E_append 101 3,
         E_Alloc (Some 102), E_recv 4 102, E_Free 102, E_thread_AcceptThreadMain] \<and>
      pool w' = [102] \<and> recv_results w' = [(5, EINTR)])"
proof -
  have neg: "(- 1 :: int) < 0" by simp
  have port: "client_fd port_connected = 4" "recv_skip_cnt port_connected = 0"
    "listen_fd port_connected = 3"
    by (simp_all add: port_connected_def port_listening_def)
  have world: "recv_results world_recv_reset =
      [(2, EINTR), (3, EINTR)] @ (- 1, ECONNRESET) # [(5, EINTR)]"
    "pool world_recv_reset = [100, 101] @ 102 # []"
    by (simp_all add: world_recv_reset_def)
  have "client_fd port_connected \<noteq> - 1 \<and> recv_skip_cnt port_connected = 0 \<and>
        recv_results world_recv_reset =
          [(2, EINTR), (3, EINTR)] @ (- 1, ECONNRESET) # [(5, EINTR)] \<and>
        (\<forall>x \<in> set [(2 :: int, EINTR), (3, EINTR)]. 0 < fst x) \<and>
        pool world_recv_reset = [100, 101] @ 102 # [] \<and>
        length [100, 101 :: nat] = length [(2 :: int, EINTR), (3, EINTR)] \<and>
        int (length [(2 :: int, EINTR), (3, EINTR)]) < 4"
    using port world by simp
  with RecvPackets_read_error_closes [OF neg, of ECONNRESET, THEN conjunct2,
      of port_connected "- 1" world_recv_reset "[(2, EINTR), (3, EINTR)]" "[(5, EINTR)]"
         "[100, 101]" 102 "[]" 4]
  have "\<exists>p' w'. RecvPackets (- 1) 4 port_connected world_recv_reset =
            Inr ([100, 101], p', w') \<and>
          old_client_fd p' = client_fd port_connected \<and> client_fd p' = - 1 \<and>
          listen_fd p' = listen_fd port_connected \<and>
          events_since world_recv_reset w' =
            received_events (client_fd port_connected) [100, 101] [(2, EINTR), (3, EINTR)] @
            [E_Alloc (Some 102), E_recv (client_fd port_connected) 102, E_Free 102,
             E_thread_AcceptThreadMain] \<and>
          pool w' = [102] \<and> recv_results w' = [(5, EINTR)]"
    by simp
  then show ?thesis
    using port world by (simp add: received_events_def)
qed

subsection \<open>The throttle\<close>

lemma RecvPackets_skips_read:
  assumes "client_fd p \<noteq> nc" and "recv_skip_cnt p \<noteq> 0"
  shows "RecvPackets nc cnt p w = Inr ([], p\<lparr>recv_skip_cnt := recv_skip_cnt p - 1\<rparr>, w)"
  using assms by (simp add: RecvPackets_def)

text \<open>With a budget of at least \<open>n\<close>, the next \<open>n\<close> calls return nothing, make no outside
  call and leave the budget lower by \<open>n\<close>.\<close>

lemma poll_throttled:
  assumes "client_fd p \<noteq> nc" and "int n \<le> recv_skip_cnt p"
  shows "poll n nc cnt p w = Inr ([], p\<lparr>recv_skip_cnt := recv_skip_cnt p - int n\<rparr>, w)"
  using assms
proof (induction n arbitrary: p)
  case 0
  then show ?case by simp
next
  case (Suc n)
  let ?p1 = "p\<lparr>recv_skip_cnt := recv_skip_cnt p - 1\<rparr>"
  from Suc.prems have first: "RecvPackets nc cnt p w = Inr ([], ?p1, w)"
    by (intro RecvPackets_skips_read) auto
  have "poll n nc cnt ?p1 w = Inr ([], ?p1\<lparr>recv_skip_cnt := recv_skip_cnt ?p1 - int n\<rparr>, w)"
    using Suc.prems by (intro Suc.IH) auto
  then show ?case
    by (simp add: first algebra_simps)
qed

text \<open>A call that reads once and finds that the read would block.\<close>

lemma RecvPackets_would_block:
  assumes "client_fd p \<noteq> nc" and "recv_skip_cnt p = 0" and "0 < cnt"
      and "pool w = b # bs" and "recv_results w = (r, e) # rest"
      and "r < 0" and "e = EAGAIN \<or> e = EWOULDBLOCK"
  shows "RecvPackets nc cnt p w =
           Inr ([], p\<lparr>recv_skip_cnt := RECV_SKIP_TICKS\<rparr>,
                w\<lparr>recv_results := rest,
                   trace := trace w @ [E_Alloc (Some b), E_recv (client_fd p) b, E_Free b]\<rparr>)"
  using assms by (auto simp: RecvPackets_def recv_loop_turn [of nc cnt "[]"])

text \<open>C9: a connected port with no budget, and an allocator with no buffer: the first turn
  of the loop gets no buffer, so the call returns no packet without having read, and sets
  the budget to 256; each of the next 256 calls returns no packet and makes no outside
  call, whatever the peer has sent: the script of the reads is untouched.\<close>

theorem RecvPackets_allocator_empty_throttles:
  assumes "client_fd p \<noteq> nc" and "recv_skip_cnt p = 0" and "pool w = []" and "0 < cnt"
  shows "RecvPackets nc cnt p w =
           Inr ([], p\<lparr>recv_skip_cnt := RECV_SKIP_TICKS\<rparr>,
                w\<lparr>trace := trace w @ [E_Alloc None]\<rparr>) \<and>
         RECV_SKIP_TICKS = 256 \<and>
         recv_results (w\<lparr>trace := trace w @ [E_Alloc None]\<rparr>) = recv_results w \<and>
         (\<forall>k \<le> 256.
            poll k nc cnt (p\<lparr>recv_skip_cnt := RECV_SKIP_TICKS\<rparr>)
                 (w\<lparr>trace := trace w @ [E_Alloc None]\<rparr>) =
              Inr ([], p\<lparr>recv_skip_cnt := RECV_SKIP_TICKS - int k\<rparr>,
                   w\<lparr>trace := trace w @ [E_Alloc None]\<rparr>))"
proof -
  have first: "RecvPackets nc cnt p w =
           Inr ([], p\<lparr>recv_skip_cnt := RECV_SKIP_TICKS\<rparr>,
                w\<lparr>trace := trace w @ [E_Alloc None]\<rparr>)"
    using assms by (simp add: RecvPackets_def recv_loop_turn [of nc cnt "[]"])
  have later: "poll k nc cnt (p\<lparr>recv_skip_cnt := RECV_SKIP_TICKS\<rparr>) w1 =
              Inr ([], p\<lparr>recv_skip_cnt := RECV_SKIP_TICKS - int k\<rparr>, w1)"
    if "k \<le> 256" for k w1
    using poll_throttled [of "p\<lparr>recv_skip_cnt := RECV_SKIP_TICKS\<rparr>" nc k cnt w1] assms(1) that
    by (simp add: RECV_SKIP_TICKS_def)
  from first later show ?thesis
    by (simp add: RECV_SKIP_TICKS_def)
qed

theorem RecvPackets_allocator_empty_throttles_witness:
  "client_fd port_connected \<noteq> - 1 \<and> recv_skip_cnt port_connected = 0 \<and>
   pool world_starved = [] \<and> (0 :: int) < 1 \<and>
   recv_results world_starved = [(2, EINTR)] \<and>
   RecvPackets (- 1) 1 port_connected world_starved =
     Inr ([], port_connected\<lparr>recv_skip_cnt := 256\<rparr>,
          world_starved\<lparr>trace := trace world_starved @ [E_Alloc None]\<rparr>) \<and>
   poll 256 (- 1) 1 (port_connected\<lparr>recv_skip_cnt := 256\<rparr>)
        (world_starved\<lparr>trace := trace world_starved @ [E_Alloc None]\<rparr>) =
     Inr ([], port_connected\<lparr>recv_skip_cnt := 0\<rparr>,
          world_starved\<lparr>trace := trace world_starved @ [E_Alloc None]\<rparr>)"
proof -
  have port: "client_fd port_connected \<noteq> - 1" "recv_skip_cnt port_connected = 0"
    by (simp_all add: port_connected_def port_listening_def)
  have world: "pool world_starved = []" "recv_results world_starved = [(2, EINTR)]"
    by (simp_all add: world_starved_def)
  have cnt: "(0 :: int) < 1" by simp
  from RecvPackets_allocator_empty_throttles [OF port world(1) cnt]
  show ?thesis
    using port world by (simp add: RECV_SKIP_TICKS_def)
qed


lemma RecvPackets_empty_sets_budget:
  assumes "client_fd p \<noteq> nc" and "recv_skip_cnt p = 0"
      and "RecvPackets nc cnt p w = Inr ([], p', w')"
  shows "recv_skip_cnt p' = RECV_SKIP_TICKS"
  using assms by (auto simp: RecvPackets_def split: sum.splits if_splits)

text \<open>C4 (as stated, refuted): an idle connected client. The first call reads, gets
  nothing and sets the budget to 256. After \<open>RECV_SKIP_TICKS - 1 = 255\<close> further calls the
  budget is 1, and the call after them still returns without reading (the environment is
  as it was): the read is skipped 256 times, and only the call after that reads again.\<close>

theorem RecvPackets_throttle_counterexample:
  "RecvPackets (- 1) 1 port_connected world_idle =
     Inr ([], port_connected\<lparr>recv_skip_cnt := 256\<rparr>, world_idle_read) \<and>
   RECV_SKIP_TICKS - 1 = 255 \<and>
   poll 255 (- 1) 1 (port_connected\<lparr>recv_skip_cnt := 256\<rparr>) world_idle_read =
     Inr ([], port_connected\<lparr>recv_skip_cnt := 1\<rparr>, world_idle_read) \<and>
   RecvPackets (- 1) 1 (port_connected\<lparr>recv_skip_cnt := 1\<rparr>) world_idle_read =
     Inr ([], port_connected\<lparr>recv_skip_cnt := 0\<rparr>, world_idle_read) \<and>
   RecvPackets (- 1) 1 (port_connected\<lparr>recv_skip_cnt := 0\<rparr>) world_idle_read =
     Inr ([], port_connected\<lparr>recv_skip_cnt := 256\<rparr>,
          world_idle_read\<lparr>recv_results := [],
            trace := trace world_idle_read @
              [E_Alloc (Some 100), E_recv 4 100, E_Free 100]\<rparr>)"
proof -
  have fd: "client_fd (port_connected\<lparr>recv_skip_cnt := c\<rparr>) \<noteq> - 1" for c
    by (simp add: port_connected_def port_listening_def)
  have skip0: "port_connected\<lparr>recv_skip_cnt := 0\<rparr> = port_connected"
    by (simp add: port_connected_def port_listening_def)
  have pool: "pool world_idle = [100, 101]" "pool world_idle_read = [100, 101]"
    by (simp_all add: world_idle_read_def world_idle_def world_connected_def
          world_listening_def world_boot_def)
  have first: "RecvPackets (- 1) 1 port_connected world_idle =
     Inr ([], port_connected\<lparr>recv_skip_cnt := 256\<rparr>, world_idle_read)"
    using RecvPackets_would_block [of port_connected "- 1" 1 world_idle 100 "[101]" "- 1"
        EAGAIN "[(- 1, EAGAIN)]"] fd [of 0] pool
    by (simp add: skip0 world_idle_read_def world_idle_def RECV_SKIP_TICKS_def
          port_connected_def port_listening_def)
  have skipped: "poll 255 (- 1) 1 (port_connected\<lparr>recv_skip_cnt := 256\<rparr>) world_idle_read =
     Inr ([], port_connected\<lparr>recv_skip_cnt := 1\<rparr>, world_idle_read)"
    using poll_throttled [of "port_connected\<lparr>recv_skip_cnt := 256\<rparr>" "- 1" 255 1
        world_idle_read] fd [of 256]
    by simp
  have still: "RecvPackets (- 1) 1 (port_connected\<lparr>recv_skip_cnt := 1\<rparr>) world_idle_read =
     Inr ([], port_connected\<lparr>recv_skip_cnt := 0\<rparr>, world_idle_read)"
    using RecvPackets_skips_read [of "port_connected\<lparr>recv_skip_cnt := 1\<rparr>" "- 1" 1
        world_idle_read] fd [of 1]
    by simp
  have again: "RecvPackets (- 1) 1 (port_connected\<lparr>recv_skip_cnt := 0\<rparr>) world_idle_read =
     Inr ([], port_connected\<lparr>recv_skip_cnt := 256\<rparr>,
          world_idle_read\<lparr>recv_results := [],
            trace := trace world_idle_read @
              [E_Alloc (Some 100), E_recv 4 100, E_Free 100]\<rparr>)"
    using RecvPackets_would_block [of port_connected "- 1" 1 world_idle_read 100 "[101]" "- 1"
        EAGAIN "[]"] fd [of 0] pool
    by (simp add: skip0 world_idle_read_def RECV_SKIP_TICKS_def
          port_connected_def port_listening_def)
  from first skipped still again show ?thesis
    by (simp add: RECV_SKIP_TICKS_def)
qed


text \<open>C4 (amended): for a connected client, a call made with no budget that returns no
  packet sets the budget to \<open>RECV_SKIP_TICKS = 256\<close>; a call made with a budget other than 0
  lowers it by one and returns no packet without any outside call, so without a read;
  and from a budget of 256, each of the next 256 calls skips the read, after which the
  budget is 0 and the next call reads again (and, the client still idle, sets the budget
  to 256 again): between two reads the read is skipped exactly 256 times.\<close>

theorem RecvPackets_throttle:
  assumes "client_fd p \<noteq> nc"
  shows "(recv_skip_cnt p = 0 \<and> RecvPackets nc cnt p w = Inr ([], p', w') \<longrightarrow>
            recv_skip_cnt p' = RECV_SKIP_TICKS) \<and>
         RECV_SKIP_TICKS = 256 \<and>
         (recv_skip_cnt p \<noteq> 0 \<longrightarrow>
            RecvPackets nc cnt p w = Inr ([], p\<lparr>recv_skip_cnt := recv_skip_cnt p - 1\<rparr>, w)) \<and>
         (recv_skip_cnt p = RECV_SKIP_TICKS \<longrightarrow>
            (\<forall>k \<le> 256.
               poll k nc cnt p w = Inr ([], p\<lparr>recv_skip_cnt := RECV_SKIP_TICKS - int k\<rparr>, w)) \<and>
            (0 < cnt \<and> pool w = b # bs \<and> recv_results w = (r, e) # rest \<and> r < 0 \<and>
             (e = EAGAIN \<or> e = EWOULDBLOCK) \<longrightarrow>
               RecvPackets nc cnt (p\<lparr>recv_skip_cnt := 0\<rparr>) w =
                 Inr ([], p\<lparr>recv_skip_cnt := RECV_SKIP_TICKS\<rparr>,
                      w\<lparr>recv_results := rest,
                         trace := trace w @
                           [E_Alloc (Some b), E_recv (client_fd p) b, E_Free b]\<rparr>)))"
proof (intro conjI impI allI)
  assume "recv_skip_cnt p = 0 \<and> RecvPackets nc cnt p w = Inr ([], p', w')"
  then show "recv_skip_cnt p' = RECV_SKIP_TICKS"
    using RecvPackets_empty_sets_budget [OF assms] by blast
next
  show "RECV_SKIP_TICKS = 256"
    by (simp add: RECV_SKIP_TICKS_def)
next
  assume "recv_skip_cnt p \<noteq> 0"
  then show "RecvPackets nc cnt p w = Inr ([], p\<lparr>recv_skip_cnt := recv_skip_cnt p - 1\<rparr>, w)"
    by (rule RecvPackets_skips_read [OF assms])
next
  fix k :: nat
  assume "recv_skip_cnt p = RECV_SKIP_TICKS" and "k \<le> 256"
  then show "poll k nc cnt p w = Inr ([], p\<lparr>recv_skip_cnt := RECV_SKIP_TICKS - int k\<rparr>, w)"
    using poll_throttled [OF assms, of k cnt w] by (simp add: RECV_SKIP_TICKS_def)
next
  assume "recv_skip_cnt p = RECV_SKIP_TICKS"
    and a: "0 < cnt \<and> pool w = b # bs \<and> recv_results w = (r, e) # rest \<and> r < 0 \<and>
            (e = EAGAIN \<or> e = EWOULDBLOCK)"
  have "RecvPackets nc cnt (p\<lparr>recv_skip_cnt := 0\<rparr>) w =
          Inr ([], p\<lparr>recv_skip_cnt := 0\<rparr>\<lparr>recv_skip_cnt := RECV_SKIP_TICKS\<rparr>,
               w\<lparr>recv_results := rest,
                  trace := trace w @
                    [E_Alloc (Some b), E_recv (client_fd (p\<lparr>recv_skip_cnt := 0\<rparr>)) b,
                     E_Free b]\<rparr>)"
    using assms a by (intro RecvPackets_would_block) auto
  then show "RecvPackets nc cnt (p\<lparr>recv_skip_cnt := 0\<rparr>) w =
                 Inr ([], p\<lparr>recv_skip_cnt := RECV_SKIP_TICKS\<rparr>,
                      w\<lparr>recv_results := rest,
                         trace := trace w @
                           [E_Alloc (Some b), E_recv (client_fd p) b, E_Free b]\<rparr>)"
    by simp
qed

theorem RecvPackets_throttle_witness:
  "client_fd (port_connected\<lparr>recv_skip_cnt := 256\<rparr>) \<noteq> - 1 \<and>
   recv_skip_cnt (port_connected\<lparr>recv_skip_cnt := 256\<rparr>) = RECV_SKIP_TICKS \<and>
   RecvPackets (- 1) 1 (port_connected\<lparr>recv_skip_cnt := 256\<rparr>) world_idle_read =
     Inr ([], port_connected\<lparr>recv_skip_cnt := 255\<rparr>, world_idle_read) \<and>
   poll 256 (- 1) 1 (port_connected\<lparr>recv_skip_cnt := 256\<rparr>) world_idle_read =
     Inr ([], port_connected\<lparr>recv_skip_cnt := 0\<rparr>, world_idle_read) \<and>
   pool world_idle_read = [100, 101] \<and> recv_results world_idle_read = [(- 1, EAGAIN)] \<and>
   RecvPackets (- 1) 1 (port_connected\<lparr>recv_skip_cnt := 0\<rparr>) world_idle_read =
     Inr ([], port_connected\<lparr>recv_skip_cnt := 256\<rparr>,
          world_idle_read\<lparr>recv_results := [],
            trace := trace world_idle_read @
              [E_Alloc (Some 100), E_recv 4 100, E_Free 100]\<rparr>)"
proof -
  have fd: "client_fd (port_connected\<lparr>recv_skip_cnt := 256\<rparr>) \<noteq> - 1"
    "client_fd port_connected = 4"
    by (simp_all add: port_connected_def port_listening_def)
  have world: "pool world_idle_read = [100, 101]"
    "recv_results world_idle_read = [(- 1, EAGAIN)]"
    by (simp_all add: world_idle_read_def world_idle_def world_connected_def
          world_listening_def world_boot_def)
  from RecvPackets_throttle [OF fd(1), of 1 world_idle_read _ _ 100 "[101]" "- 1" EAGAIN "[]"]
  show ?thesis
    using fd world by (simp add: RECV_SKIP_TICKS_def)
qed

end
